theory Spec2Isabelle
  imports Complex_Main "HOL-Library.Sublist"
begin

section \<open>Strings\<close>

text \<open>
  A Python \<^verbatim>\<open>str\<close> is modelled as a \<^typ>\<open>string\<close> whose characters are the code
  points 0..255. On these code points the case-insensitive tests of the source
  (\<^verbatim>\<open>upper() == "WEBVTT"\<close>, \<^verbatim>\<open>lower().startswith("kind:")\<close>) agree with folding the
  ASCII letters only, \<^verbatim>\<open>\d\<close> matches the ten ASCII digits only, and the white space
  and line boundaries are the ones listed below.
\<close>

definition isspace :: "char \<Rightarrow> bool" where
  \<comment> \<open>\<^verbatim>\<open>str.isspace\<close> on one character: TAB, LF, VT, FF, CR, FS, GS, RS, US, SPACE, NEL, NBSP\<close>
  "isspace c \<longleftrightarrow>
     c \<in> set [CHR 0x09, CHR 0x0A, CHR 0x0B, CHR 0x0C, CHR 0x0D, CHR 0x1C, CHR 0x1D,
               CHR 0x1E, CHR 0x1F, CHR 0x20, CHR 0x85, CHR 0xA0]"

definition islinebreak :: "char \<Rightarrow> bool" where
  \<comment> \<open>the line boundaries of \<^verbatim>\<open>str.splitlines\<close>: LF, VT, FF, CR, FS, GS, RS, NEL\<close>
  "islinebreak c \<longleftrightarrow>
     c \<in> set [CHR 0x0A, CHR 0x0B, CHR 0x0C, CHR 0x0D, CHR 0x1C, CHR 0x1D, CHR 0x1E, CHR 0x85]"

definition isdigit :: "char \<Rightarrow> bool" where
  "isdigit c \<longleftrightarrow> c \<in> set ''0123456789''"

definition upper_char :: "char \<Rightarrow> char" where
  "upper_char c =
     (case map_of (zip ''abcdefghijklmnopqrstuvwxyz'' ''ABCDEFGHIJKLMNOPQRSTUVWXYZ'') c of
        Some u \<Rightarrow> u | None \<Rightarrow> c)"

definition lower_char :: "char \<Rightarrow> char" where
  "lower_char c =
     (case map_of (zip ''ABCDEFGHIJKLMNOPQRSTUVWXYZ'' ''abcdefghijklmnopqrstuvwxyz'') c of
        Some l \<Rightarrow> l | None \<Rightarrow> c)"

definition upper :: "string \<Rightarrow> string" where
  "upper s = map upper_char s"

definition lower :: "string \<Rightarrow> string" where
  "lower s = map lower_char s"

definition strip :: "string \<Rightarrow> string" where
  \<comment> \<open>\<^verbatim>\<open>s.strip()\<close>: leading and trailing white space removed\<close>
  "strip s = rev (dropWhile isspace (rev (dropWhile isspace s)))"

definition startswith :: "string \<Rightarrow> string \<Rightarrow> bool" where
  \<comment> \<open>\<^verbatim>\<open>s.startswith(p)\<close>\<close>
  "startswith s p \<longleftrightarrow> prefix p s"

definition contains :: "string \<Rightarrow> string \<Rightarrow> bool" where
  \<comment> \<open>\<^verbatim>\<open>p in s\<close> on strings: \<open>p\<close> is a contiguous part of \<open>s\<close>\<close>
  "contains p s \<longleftrightarrow> sublist p s"

fun splitlines :: "string \<Rightarrow> string list" where
  \<comment> \<open>\<^verbatim>\<open>s.splitlines()\<close>: CR LF is one boundary, no empty last line after a final boundary\<close>
  "splitlines [] = []"
| "splitlines (c # cs) =
     (if islinebreak c then
        (case cs of
           d # ds \<Rightarrow> if c = CHR 0x0D \<and> d = CHR 0x0A then [] # splitlines ds
                     else [] # splitlines cs
         | [] \<Rightarrow> [[]])
      else
        (case splitlines cs of
           [] \<Rightarrow> [[c]]
         | l # ls \<Rightarrow> (c # l) # ls))"

fun join :: "string \<Rightarrow> string list \<Rightarrow> string" where
  \<comment> \<open>\<^verbatim>\<open>sep.join(parts)\<close>\<close>
  "join sep [] = []"
| "join sep [x] = x"
| "join sep (x # y # ys) = x @ sep @ join sep (y # ys)"

fun replace_two_spaces :: "string \<Rightarrow> string" where
  \<comment> \<open>\<^verbatim>\<open>s.replace("  ", " ")\<close>: one pass from the left over non-overlapping occurrences\<close>
  "replace_two_spaces (a # b # cs) =
     (if a = CHR '' '' \<and> b = CHR '' '' then CHR '' '' # replace_two_spaces cs
      else a # replace_two_spaces (b # cs))"
| "replace_two_spaces cs = cs"

definition re_match_digits :: "string \<Rightarrow> bool" where
  \<comment> \<open>\<^verbatim>\<open>re.match(r"^\d+$", s)\<close>: one or rest digits, then the end or one final LF\<close>
  "re_match_digits s \<longleftrightarrow>
     (let core = (if s \<noteq> [] \<and> last s = CHR 0x0A then butlast s else s)
      in core \<noteq> [] \<and> list_all isdigit core)"

function re_sub_tags :: "string \<Rightarrow> string" where
  \<comment> \<open>\<^verbatim>\<open>re.sub(r"<[^>]+>", " ", s)\<close>: scanning from the left, a \<open><\<close> followed by at least
      one character other than \<open>>\<close> and then a \<open>>\<close> is replaced by a space\<close>
  "re_sub_tags [] = []"
| "re_sub_tags (c # cs) =
     (let body = takeWhile (\<lambda>x. x \<noteq> CHR ''>'') cs;
          rest = dropWhile (\<lambda>x. x \<noteq> CHR ''>'') cs
      in if c = CHR ''<'' \<and> body \<noteq> [] \<and> rest \<noteq> []
         then CHR '' '' # re_sub_tags (tl rest)
         else c # re_sub_tags cs)"
  by pat_completeness auto
termination
proof (relation "measure length")
  show "wf (measure length)" by simp
next
  fix c :: char and cs body rest :: string
  assume r: "rest = dropWhile (\<lambda>x. x \<noteq> CHR ''>'') cs"
  have "length (tl rest) \<le> length rest" by simp
  also have "\<dots> \<le> length cs" unfolding r by (rule length_dropWhile_le)
  finally show "(tl rest, c # cs) \<in> measure length" by simp
next
  fix c :: char and cs :: string
  show "(cs, c # cs) \<in> measure length" by simp
qed

section \<open>The VTT cleaner\<close>

fun clean_vtt_lines :: "string list \<Rightarrow> string list" where
  \<comment> \<open>the \<^verbatim>\<open>for line in vtt_text.splitlines()\<close> loop; the result is \<^verbatim>\<open>lines\<close>\<close>
  "clean_vtt_lines [] = []"
| "clean_vtt_lines (line # rest) =
     (let stripped = strip line in
      if stripped = [] then clean_vtt_lines rest
      else if upper stripped = ''WEBVTT'' then clean_vtt_lines rest
      else if contains ''-->'' stripped then clean_vtt_lines rest
      else if re_match_digits stripped then clean_vtt_lines rest
      else if startswith (lower stripped) ''kind:'' then clean_vtt_lines rest
      else if startswith (lower stripped) ''language:'' then clean_vtt_lines rest
      else re_sub_tags stripped # clean_vtt_lines rest)"

definition clean_vtt_text :: "string \<Rightarrow> string" where
  "clean_vtt_text vtt_text =
     strip (replace_two_spaces (join '' '' (clean_vtt_lines (splitlines vtt_text))))"

section \<open>JSON values\<close>

text \<open>
  A value that \<^verbatim>\<open>json.loads\<close> returns. A Python \<^verbatim>\<open>dict\<close> is an association list in the order
  of its keys; a dictionary has each key once, and \<open>map_of\<close> reads the value of a key.
\<close>

datatype json =
    JNull
  | JBool bool
  | JInt int
  | JFloat real
  | JStr string
  | JList "json list"
  | JDict "(string \<times> json) list"

fun truthy :: "json \<Rightarrow> bool" where
  "truthy JNull = False"
| "truthy (JBool b) = b"
| "truthy (JInt i) = (i \<noteq> 0)"
| "truthy (JFloat r) = (r \<noteq> 0)"
| "truthy (JStr s) = (s \<noteq> [])"
| "truthy (JList xs) = (xs \<noteq> [])"
| "truthy (JDict d) = (d \<noteq> [])"

definition dict_get :: "(string \<times> json) list \<Rightarrow> string \<Rightarrow> json \<Rightarrow> json" where
  "dict_get d k dflt = (case map_of d k of Some v \<Rightarrow> v | None \<Rightarrow> dflt)"

function find_recipe_in_jsonld :: "json \<Rightarrow> json option"
  and find_recipe_in_items :: "json list \<Rightarrow> json option" where
  "find_recipe_in_jsonld (JDict d) =
     (let schema_type = dict_get d ''@type'' (JStr '''');
          types = (case schema_type of JList ts \<Rightarrow> ts | _ \<Rightarrow> [schema_type])
      in if JStr ''Recipe'' \<in> set types then Some (JDict d)
         else (case map_of d ''@graph'' of
                 Some graph \<Rightarrow>
                   (case find_recipe_in_jsonld graph of
                      Some result \<Rightarrow> if truthy result then Some result else None
                    | None \<Rightarrow> None)
               | None \<Rightarrow> None))"
| "find_recipe_in_jsonld (JList items) = find_recipe_in_items items"
| "find_recipe_in_jsonld JNull = None"
| "find_recipe_in_jsonld (JBool b) = None"
| "find_recipe_in_jsonld (JInt i) = None"
| "find_recipe_in_jsonld (JFloat r) = None"
| "find_recipe_in_jsonld (JStr s) = None"
| "find_recipe_in_items [] = None"
| "find_recipe_in_items (item # rest) =
     (case find_recipe_in_jsonld item of
        Some result \<Rightarrow> if truthy result then Some result else find_recipe_in_items rest
      | None \<Rightarrow> find_recipe_in_items rest)"
  by pat_completeness auto
termination
proof -
  have sz: "size v < Suc (size_list (size_prod (\<lambda>_. 0) size) d)"
    if "map_of d k = Some v" for d :: "(string \<times> json) list" and k v
    using that by (induction d) (auto split: if_splits)
  show ?thesis
    by (relation "measure (\<lambda>x. case x of Inl v \<Rightarrow> size v | Inr vs \<Rightarrow> size_list size vs)")
       (auto dest: sz)
qed

section \<open>Exceptions, external calls and responses\<close>

datatype exc_class = Timeout | RequestException | RuntimeError | AttributeError | OtherException

text \<open>
  An exception is its class and its message (\<^verbatim>\<open>str(exc)\<close>). \<open>Timeout\<close> stands for
  \<^verbatim>\<open>requests.exceptions.Timeout\<close>, \<open>RequestException\<close> for every other subclass of
  \<^verbatim>\<open>requests.exceptions.RequestException\<close>, \<open>OtherException\<close> for any other exception
  a collaborator raises.
\<close>

datatype exc = Exc exc_class string

fun exc_str :: "exc \<Rightarrow> string" where
  "exc_str (Exc c msg) = msg"

type_synonym response = "(string \<times> json) list"

fun json_of_str :: "string option \<Rightarrow> json" where
  "json_of_str None = JNull"
| "json_of_str (Some s) = JStr s"

fun str_truthy :: "string option \<Rightarrow> bool" where
  \<comment> \<open>truth value of a value that is \<^verbatim>\<open>None\<close> or a string\<close>
  "str_truthy None = False"
| "str_truthy (Some s) = (s \<noteq> [])"

section \<open>The transcript endpoint\<close>

record caption_track =
  ext :: "string option"
  track_url :: "string option"

record video_info =
  info_description :: "string option"
  info_title :: "string option"
  info_subtitles :: "(string \<times> caption_track list) list option"
  info_automatic_captions :: "(string \<times> caption_track list) list option"

record ydl_opts =
  cookiefile :: "string option"
  cookiesfrombrowser :: "string option"

datatype call =
    ExtractInfo ydl_opts string
  | GetTranscript string "string list" "string option"
  | RequestsGet string nat

text \<open>
  The outcomes of the external calls of one request: the metadata extractor at its first
  call and at the second call that the fallback makes when the first one failed, the
  transcript provider (the \<^verbatim>\<open>text\<close> entry of each item, if it has one), and
  \<^verbatim>\<open>requests.get\<close> followed by \<^verbatim>\<open>raise_for_status\<close> for each URL (the text of the response).
  Each handler returns, beside its result, the list of the external calls it made.
\<close>

record world =
  extract_info_first :: "exc + video_info"
  extract_info_second :: "exc + video_info"
  get_transcript :: "exc + string option list"
  requests_get :: "string \<Rightarrow> exc + string"

definition fetch_video_info ::
  "(exc + video_info) \<Rightarrow> string \<Rightarrow> string option \<Rightarrow> string option \<Rightarrow>
   (exc + video_info) \<times> call list" where
  "fetch_video_info outcome video_id cookies_path cookies_browser =
     (let ydl_opts = \<lparr>cookiefile = (if str_truthy cookies_path then cookies_path else None),
                       cookiesfrombrowser =
                         (if str_truthy cookies_browser \<and> \<not> str_truthy cookies_path
                          then cookies_browser else None)\<rparr>
      in (outcome, [ExtractInfo ydl_opts (''https://www.youtube.com/watch?v='' @ video_id)]))"

fun first_vtt_url :: "caption_track list \<Rightarrow> string option" where
  \<comment> \<open>the first loop of \<^verbatim>\<open>pick_caption_url\<close>\<close>
  "first_vtt_url [] = None"
| "first_vtt_url (entry # rest) =
     (if ext entry = Some ''vtt'' \<and> str_truthy (track_url entry) then track_url entry
      else first_vtt_url rest)"

fun first_url :: "caption_track list \<Rightarrow> string option" where
  \<comment> \<open>the second loop of \<^verbatim>\<open>pick_caption_url\<close>\<close>
  "first_url [] = None"
| "first_url (entry # rest) =
     (if str_truthy (track_url entry) then track_url entry else first_url rest)"

definition pick_caption_url :: "string \<Rightarrow> (string \<times> caption_track list) list \<Rightarrow> string option" where
  "pick_caption_url lang store =
     (let entries = (case map_of store lang of Some es \<Rightarrow> es | None \<Rightarrow> [])
      in case first_vtt_url entries of
           Some u \<Rightarrow> Some u
         | None \<Rightarrow> first_url entries)"

definition choose_caption_url :: "string \<Rightarrow> video_info \<Rightarrow> string option" where
  \<comment> \<open>\<^verbatim>\<open>pick_caption_url(captions) or pick_caption_url(auto_captions)\<close>\<close>
  "choose_caption_url lang info =
     (let captions = (case info_subtitles info of Some d \<Rightarrow> d | None \<Rightarrow> []);
          auto_captions = (case info_automatic_captions info of Some d \<Rightarrow> d | None \<Rightarrow> [])
      in if str_truthy (pick_caption_url lang captions) then pick_caption_url lang captions
         else pick_caption_url lang auto_captions)"

definition fetch_via_ytdlp ::
  "world \<Rightarrow> string \<Rightarrow> string \<Rightarrow> string option \<Rightarrow> string option \<Rightarrow> video_info option \<Rightarrow>
   (exc + string \<times> video_info) \<times> call list" where
  "fetch_via_ytdlp w video_id lang cookies_path cookies_browser info0 =
     (let (fetched, calls) =
            (case info0 of
               None \<Rightarrow> fetch_video_info (extract_info_second w) video_id cookies_path cookies_browser
             | Some i \<Rightarrow> (Inr i, []))
      in case fetched of
           Inl e \<Rightarrow> (Inl e, calls)
         | Inr info \<Rightarrow>
             (case choose_caption_url lang info of
                Some caption_url \<Rightarrow>
                  if caption_url = [] then
                    (Inl (Exc RuntimeError ''No captions found for requested language''), calls)
                  else
                    (case requests_get w caption_url of
                       Inl e \<Rightarrow> (Inl e, calls @ [RequestsGet caption_url 30])
                     | Inr text \<Rightarrow>
                         (Inr (clean_vtt_text text, info), calls @ [RequestsGet caption_url 30]))
              | None \<Rightarrow>
                  (Inl (Exc RuntimeError ''No captions found for requested language''), calls)))"

definition primary_text :: "string option list \<Rightarrow> string" where
  \<comment> \<open>\<^verbatim>\<open>" ".join([item.get("text", "") for item in transcript_items]).strip()\<close>\<close>
  "primary_text transcript_items =
     strip (join '' '' (map (\<lambda>item. case item of Some t \<Rightarrow> t | None \<Rightarrow> []) transcript_items))"

definition transcript ::
  "world \<Rightarrow> string option \<Rightarrow> string option \<Rightarrow> string \<Rightarrow> string \<Rightarrow> response \<times> call list" where
  "transcript w cookies_path cookies_browser videoId lang =
     (let (step1, calls1) =
            fetch_video_info (extract_info_first w) videoId cookies_path cookies_browser;
          video_info = (case step1 of Inr i \<Rightarrow> Some i | Inl _ \<Rightarrow> None);
          description = (case video_info of Some i \<Rightarrow> info_description i | None \<Rightarrow> None);
          title = (case video_info of Some i \<Rightarrow> info_title i | None \<Rightarrow> None);
          calls2 = calls1 @ [GetTranscript videoId [lang] cookies_path];
          primary =
            (case get_transcript w of
               Inl e \<Rightarrow> Inl e
             | Inr transcript_items \<Rightarrow>
                 if primary_text transcript_items = []
                 then Inl (Exc RuntimeError ''Empty transcript from primary API'')
                 else Inr (primary_text transcript_items))
      in case primary of
           Inr text \<Rightarrow>
             ([(''success'', JBool True),
               (''videoId'', JStr videoId),
               (''transcript'', JStr text),
               (''description'', json_of_str description),
               (''title'', json_of_str title)], calls2)
         | Inl exc \<Rightarrow>
             (case fetch_via_ytdlp w videoId lang cookies_path cookies_browser video_info of
                (Inr (text, info), calls3) \<Rightarrow>
                  ([(''success'', JBool True),
                    (''videoId'', JStr videoId),
                    (''transcript'', JStr text),
                    (''description'',
                       json_of_str (if \<not> str_truthy description then info_description info
                                    else description)),
                    (''title'',
                       json_of_str (if \<not> str_truthy description then info_title info
                                    else title))], calls2 @ calls3)
              | (Inl fallback_exc, calls3) \<Rightarrow>
                  ([(''success'', JBool False),
                    (''videoId'', JStr videoId),
                    (''error'', JStr (exc_str exc @ '' | fallback: '' @ exc_str fallback_exc)),
                    (''transcript'', JNull),
                    (''description'', json_of_str description),
                    (''title'', json_of_str title)], calls2 @ calls3)))"

section \<open>The recipe scraper\<close>

datatype json_loads = Loaded json | JSONDecodeError | TypeError | Raised string

text \<open>
  The outcome of \<^verbatim>\<open>json.loads(script.string)\<close> for one script block: the parsed value, one of
  the two exceptions that the loop catches, or any other exception with its message (a
  \<^verbatim>\<open>ValueError\<close> for an integer literal over the digit limit, a \<^verbatim>\<open>RecursionError\<close>), which
  leaves the loop and reaches the last \<^verbatim>\<open>except\<close> clause of the handler.

  What the handler reads from the parsed page: \<^verbatim>\<open>soup.title.string\<close> (\<open>None\<close> when the page
  has no title element or the element has no single string), the first \<^verbatim>\<open>og:image\<close> meta
  tag of the page, which is the one \<^verbatim>\<open>soup.find\<close> returns (\<open>None\<close> when there is no such tag,
  \<open>Some None\<close> when it has no \<^verbatim>\<open>content\<close> attribute), the outcome of \<^verbatim>\<open>json.loads\<close> for each
  JSON-LD script block in document order, and the text of the page once the script, style,
  nav, footer and header elements are removed.
\<close>

record soup =
  title_string :: "string option"
  og_image_tag :: "string option option"
  ld_json_scripts :: "json_loads list"
  get_text :: string

fun find_recipe_in_scripts :: "json_loads list \<Rightarrow> exc + json option" where
  \<comment> \<open>the \<^verbatim>\<open>for script in soup.find_all(...)\<close> loop; the result is \<^verbatim>\<open>recipe_data\<close> when truthy\<close>
  "find_recipe_in_scripts [] = Inr None"
| "find_recipe_in_scripts (Loaded data # rest) =
     (case find_recipe_in_jsonld data of
        Some recipe_data \<Rightarrow>
          if truthy recipe_data then Inr (Some recipe_data) else find_recipe_in_scripts rest
      | None \<Rightarrow> find_recipe_in_scripts rest)"
| "find_recipe_in_scripts (JSONDecodeError # rest) = find_recipe_in_scripts rest"
| "find_recipe_in_scripts (TypeError # rest) = find_recipe_in_scripts rest"
| "find_recipe_in_scripts (Raised msg # rest) = Inl (Exc OtherException msg)"

fun type_name :: "json \<Rightarrow> string" where
  "type_name JNull = ''NoneType''"
| "type_name (JBool b) = ''bool''"
| "type_name (JInt i) = ''int''"
| "type_name (JFloat r) = ''float''"
| "type_name (JStr s) = ''str''"
| "type_name (JList xs) = ''list''"
| "type_name (JDict d) = ''dict''"

definition no_attribute_get :: "json \<Rightarrow> exc" where
  \<comment> \<open>the \<^verbatim>\<open>AttributeError\<close> of \<^verbatim>\<open>x.get\<close> on a value that is not a mapping\<close>
  "no_attribute_get x =
     Exc AttributeError ([CHR 0x27] @ type_name x @ [CHR 0x27] @ '' object has no attribute ''
                         @ [CHR 0x27] @ ''get'' @ [CHR 0x27])"

definition recipe_image :: "json \<Rightarrow> json \<Rightarrow> exc + json" where
  \<comment> \<open>the value of \<^verbatim>\<open>og_image\<close> after the block that reads the recipe's \<^verbatim>\<open>image\<close> field\<close>
  "recipe_image og_image img =
     (case img of
        JStr s \<Rightarrow> Inr (JStr s)
      | JList xs \<Rightarrow>
          (case xs of
             [] \<Rightarrow> Inr og_image
           | x # _ \<Rightarrow>
               (case x of
                  JStr s \<Rightarrow> Inr (JStr s)
                | JDict d \<Rightarrow> Inr (dict_get d ''url'' (JStr []))
                | _ \<Rightarrow> Inl (no_attribute_get x)))
      | JDict d \<Rightarrow> Inr (dict_get d ''url'' (JStr []))
      | _ \<Rightarrow> Inr og_image)"

definition scrape_page :: "soup \<Rightarrow> exc + response" where
  \<comment> \<open>the body of the \<^verbatim>\<open>try\<close> block once the page is fetched and parsed\<close>
  "scrape_page page =
     (let page_title =
            (case title_string page of
               Some s \<Rightarrow> if s \<noteq> [] then JStr (strip s) else JNull
             | None \<Rightarrow> JNull);
          og_image =
            (case og_image_tag page of
               Some (Some content) \<Rightarrow> if content \<noteq> [] then JStr content else JNull
             | _ \<Rightarrow> JNull);
          body_text =
            (if length (get_text page) > 8000 then take 8000 (get_text page) else get_text page)
      in case find_recipe_in_scripts (ld_json_scripts page) of
           Inl e \<Rightarrow> Inl e
         | Inr (Some recipe_data) \<Rightarrow>
             (case recipe_data of
                JDict d \<Rightarrow>
                  (case (if \<not> truthy og_image \<and> truthy (dict_get d ''image'' JNull)
                         then recipe_image og_image (dict_get d ''image'' JNull)
                         else Inr og_image) of
                     Inl e \<Rightarrow> Inl e
                   | Inr og_image' \<Rightarrow>
                       (let has_instructions = dict_get d ''recipeInstructions'' JNull
                        in Inr [(''success'', JBool True),
                                (''recipe_data'', recipe_data),
                                (''page_text'',
                                   if \<not> truthy has_instructions then JStr body_text else JNull),
                                (''title'',
                                   if truthy (dict_get d ''name'' JNull)
                                   then dict_get d ''name'' JNull else page_title),
                                (''image_url'', og_image')]))
              | _ \<Rightarrow> Inl (no_attribute_get recipe_data))
         | Inr None \<Rightarrow>
             Inr [(''success'', JBool True),
                  (''recipe_data'', JNull),
                  (''page_text'', JStr body_text),
                  (''title'', page_title),
                  (''image_url'', og_image)])"

fun scrape_failure :: "exc \<Rightarrow> response" where
  \<comment> \<open>the three \<^verbatim>\<open>except\<close> clauses, in their order\<close>
  "scrape_failure (Exc Timeout msg) =
     [(''success'', JBool False), (''error'', JStr ''Request timed out'')]"
| "scrape_failure (Exc RequestException msg) =
     [(''success'', JBool False), (''error'', JStr (''Failed to fetch page: '' @ msg))]"
| "scrape_failure (Exc c msg) =
     [(''success'', JBool False), (''error'', JStr (''Scraping failed: '' @ msg))]"

definition scrape_recipe ::
  "(string \<Rightarrow> exc + string) \<Rightarrow> (string \<Rightarrow> soup) \<Rightarrow> string \<Rightarrow> response" where
  \<comment> \<open>\<open>get\<close> is \<^verbatim>\<open>requests.get(url, headers, timeout=15)\<close> followed by \<^verbatim>\<open>raise_for_status\<close>,
      \<open>parse\<close> is the HTML parser\<close>
  "scrape_recipe get parse url =
     (case get url of
        Inl e \<Rightarrow> scrape_failure e
      | Inr html \<Rightarrow>
          (case scrape_page (parse html) of
             Inl e \<Rightarrow> scrape_failure e
           | Inr result \<Rightarrow> result))"

text \<open>
  What the HTTP client (requests 2.32) raises for the failures of a fetch, after
  \<^verbatim>\<open>HTTPAdapter.send\<close>, \<^verbatim>\<open>Session.send\<close>, \<^verbatim>\<open>Response.iter_content\<close> and
  \<^verbatim>\<open>Response.raise_for_status\<close>; each event carries the message of the exception.
  \<^item> \<open>ConnectTimedOut\<close>: opening the connection timed out (a \<^verbatim>\<open>MaxRetryError\<close> whose reason is
    a \<^verbatim>\<open>ConnectTimeoutError\<close>); raised as \<^verbatim>\<open>ConnectTimeout\<close>, a subclass of \<^verbatim>\<open>Timeout\<close>.
  \<^item> \<open>ResponseTimedOut\<close>: no response arrived in time (\<^verbatim>\<open>urlopen\<close> raises
    \<^verbatim>\<open>ReadTimeoutError\<close>); raised as \<^verbatim>\<open>ReadTimeout\<close>, a subclass of \<^verbatim>\<open>Timeout\<close>.
  \<^item> \<open>BodyTimedOut\<close>: the response arrived and reading its body timed out (\<^verbatim>\<open>r.content\<close> in
    \<^verbatim>\<open>Session.send\<close>, where \<^verbatim>\<open>iter_content\<close> turns the \<^verbatim>\<open>ReadTimeoutError\<close> into a
    \<^verbatim>\<open>ConnectionError\<close>, which is not a \<^verbatim>\<open>Timeout\<close>).
  \<^item> \<open>ConnectionFailed\<close>: a protocol or socket error, or retries exhausted for another
    reason; raised as \<^verbatim>\<open>ConnectionError\<close>.
  \<^item> \<open>TransportError\<close>: another error of the transport library (a \<^verbatim>\<open>urllib3\<close>
    \<^verbatim>\<open>HTTPError\<close> such as \<^verbatim>\<open>LocationParseError\<close>), which \<^verbatim>\<open>HTTPAdapter.send\<close> raises again
    unchanged; it is not a \<^verbatim>\<open>RequestException\<close>.
  \<^item> \<open>ErrorStatus\<close>: a 4xx or 5xx status; \<^verbatim>\<open>raise_for_status\<close> raises \<^verbatim>\<open>HTTPError\<close>.
  \<^item> \<open>Delivered\<close>: the text of the response.
\<close>

datatype fetch_event =
    ConnectTimedOut string
  | ResponseTimedOut string
  | BodyTimedOut string
  | ConnectionFailed string
  | TransportError string
  | ErrorStatus string
  | Delivered string

fun requests_outcome :: "fetch_event \<Rightarrow> exc + string" where
  "requests_outcome (ConnectTimedOut msg) = Inl (Exc Timeout msg)"
| "requests_outcome (ResponseTimedOut msg) = Inl (Exc Timeout msg)"
| "requests_outcome (BodyTimedOut msg) = Inl (Exc RequestException msg)"
| "requests_outcome (ConnectionFailed msg) = Inl (Exc RequestException msg)"
| "requests_outcome (TransportError msg) = Inl (Exc OtherException msg)"
| "requests_outcome (ErrorStatus msg) = Inl (Exc RequestException msg)"
| "requests_outcome (Delivered html) = Inr html"

section \<open>Auxiliary notions for the proofs\<close>

text \<open>A stripped line that the loop of the cleaner keeps.\<close>

definition line_kept :: "string \<Rightarrow> bool" where
  "line_kept s \<longleftrightarrow>
     s \<noteq> [] \<and> upper s \<noteq> ''WEBVTT'' \<and> \<not> contains ''-->'' s \<and> \<not> re_match_digits s \<and>
     \<not> startswith (lower s) ''kind:'' \<and> \<not> startswith (lower s) ''language:''"

text \<open>A line on which the cleaner has nothing left to do.\<close>

definition plain_line :: "string \<Rightarrow> bool" where
  "plain_line s \<longleftrightarrow>
     s \<noteq> [] \<and> \<not> isspace (hd s) \<and> \<not> isspace (last s) \<and> (\<forall>c \<in> set s. \<not> islinebreak c) \<and>
     CHR ''<'' \<notin> set s \<and> \<not> contains ''  '' s \<and> line_kept s"

text \<open>The finder as the specification words it: the nodes in depth-first pre-order.\<close>

definition spec_type_sequence :: "json \<Rightarrow> json list" where
  "spec_type_sequence node =
     (case node of
        JDict d \<Rightarrow>
          (let schema_type = dict_get d ''@type'' (JStr [])
           in case schema_type of JList ts \<Rightarrow> ts | _ \<Rightarrow> [schema_type])
      | _ \<Rightarrow> [])"

definition spec_is_recipe :: "json \<Rightarrow> bool" where
  "spec_is_recipe node \<longleftrightarrow> JStr ''Recipe'' \<in> set (spec_type_sequence node)"



text \<open>
  The image of a recipe as the specification words it: the \<^verbatim>\<open>image\<close> field is a single
  string, a sequence whose first element is a string or an object with a \<^verbatim>\<open>url\<close> field,
  or a single object with a \<^verbatim>\<open>url\<close> field (an object without the field gives the empty
  string).
\<close>

fun spec_recipe_image :: "json \<Rightarrow> json option" where
  "spec_recipe_image (JStr s) = Some (JStr s)"
| "spec_recipe_image (JList (JStr s # others)) = Some (JStr s)"
| "spec_recipe_image (JList (JDict e # others)) = Some (dict_get e ''url'' (JStr []))"
| "spec_recipe_image (JDict e) = Some (dict_get e ''url'' (JStr []))"
| "spec_recipe_image img = None"

text \<open>The content of the \<^verbatim>\<open>og:image\<close> tag when the tag is there and its content is not empty.\<close>

definition spec_og_image :: "soup \<Rightarrow> string option" where
  "spec_og_image page =
     (case og_image_tag page of
        Some (Some content) \<Rightarrow> if content \<noteq> [] then Some content else None
      | _ \<Rightarrow> None)"

text \<open>
  The choice of the caption track as the specification words it: in one store, the first
  track of the language with the subtitle format and a URL, else the first track of the
  language with a URL; the manual store first, then the automatic one.
\<close>

definition spec_has_url :: "caption_track \<Rightarrow> bool" where
  "spec_has_url t \<longleftrightarrow> (case track_url t of Some u \<Rightarrow> u \<noteq> [] | None \<Rightarrow> False)"

definition spec_pick_in_store :: "string \<Rightarrow> (string \<times> caption_track list) list \<Rightarrow> string option" where
  "spec_pick_in_store lang store =
     (let tracks = (case map_of store lang of Some ts \<Rightarrow> ts | None \<Rightarrow> [])
      in case List.find (\<lambda>t. ext t = Some ''vtt'' \<and> spec_has_url t) tracks of
           Some t \<Rightarrow> track_url t
         | None \<Rightarrow>
             (case List.find spec_has_url tracks of
                Some t \<Rightarrow> track_url t
              | None \<Rightarrow> None))"

definition spec_caption_url :: "string \<Rightarrow> video_info \<Rightarrow> string option" where
  "spec_caption_url lang info =
     (case spec_pick_in_store lang (case info_subtitles info of Some d \<Rightarrow> d | None \<Rightarrow> []) of
        Some u \<Rightarrow> Some u
      | None \<Rightarrow>
          spec_pick_in_store lang
            (case info_automatic_captions info of Some d \<Rightarrow> d | None \<Rightarrow> []))"

text \<open>The external calls that download a caption track.\<close>

fun is_caption_fetch :: "call \<Rightarrow> bool" where
  "is_caption_fetch (RequestsGet u t) = True"
| "is_caption_fetch c = False"

section \<open>Example inputs\<close>

text \<open>
  Metadata with two manual English tracks, of which the subtitle-format one has an empty
  URL, and one automatic English track in the subtitle format.
\<close>

definition example_info :: video_info where
  "example_info =
     \<lparr>info_description = Some ''About soup'', info_title = Some ''Soup'',
      info_subtitles =
        Some [(''en'', [\<lparr>ext = Some ''vtt'', track_url = Some []\<rparr>,
                        \<lparr>ext = Some ''json3'', track_url = Some ''https://c/manual.json3''\<rparr>])],
      info_automatic_captions =
        Some [(''en'', [\<lparr>ext = Some ''vtt'', track_url = Some ''https://c/auto.vtt''\<rparr>])]\<rparr>"

text \<open>A request where the transcript provider answers with two items.\<close>

definition example_world :: world where
  "example_world =
     \<lparr>extract_info_first = Inr example_info,
      extract_info_second = Inr example_info,
      get_transcript = Inr [Some ''Boil the'', Some ''water''],
      requests_get = (\<lambda>u. Inr ''WEBVTT'')\<rparr>"

text \<open>A request where every external call fails.\<close>

definition failing_world :: world where
  "failing_world =
     \<lparr>extract_info_first = Inl (Exc OtherException ''private video''),
      extract_info_second = Inl (Exc OtherException ''private video''),
      get_transcript = Inl (Exc OtherException ''transcripts disabled''),
      requests_get = (\<lambda>u. Inl (Exc Timeout ''read timed out''))\<rparr>"

text \<open>A request where the transcript provider answers with one item of white space only.\<close>

definition blank_world :: world where
  "blank_world =
     \<lparr>extract_info_first = Inr example_info,
      extract_info_second = Inr example_info,
      get_transcript = Inr [Some '' ''],
      requests_get = (\<lambda>u. Inr ''WEBVTT'')\<rparr>"

text \<open>
  The page of the end-to-end scenario of the specification, and variants of it: with an
  \<^verbatim>\<open>og:image\<close> tag whose content is empty, with an empty list of instructions, and with no
  \<^verbatim>\<open>og:image\<close> tag and a list of images.
\<close>

definition example_recipe :: "(string \<times> json) list" where
  "example_recipe =
     [(''@type'', JStr ''Recipe''), (''name'', JStr ''Soup''),
      (''image'', JStr ''https://img/y.jpg''),
      (''recipeInstructions'', JList [JStr ''Boil''])]"

definition example_page :: soup where
  "example_page =
     \<lparr>title_string = Some ''Recipes'',
      og_image_tag = Some (Some ''https://img/x.jpg''),
      ld_json_scripts = [JSONDecodeError, Loaded (JDict example_recipe)],
      get_text = ''Soup. Boil.''\<rparr>"

definition empty_og_page :: soup where
  "empty_og_page = example_page\<lparr>og_image_tag := Some (Some [])\<rparr>"

definition empty_instructions_recipe :: "(string \<times> json) list" where
  "empty_instructions_recipe =
     [(''@type'', JStr ''Recipe''), (''name'', JStr ''Soup''), (''recipeInstructions'', JList [])]"

definition empty_instructions_page :: soup where
  "empty_instructions_page =
     example_page\<lparr>ld_json_scripts := [Loaded (JDict empty_instructions_recipe)]\<rparr>"

definition image_list_recipe :: "(string \<times> json) list" where
  "image_list_recipe =
     [(''@type'', JStr ''Recipe''),
      (''image'', JList [JDict [(''url'', JStr ''https://img/z.jpg'')], JStr ''https://img/w.jpg''])]"

definition image_list_page :: soup where
  "image_list_page =
     example_page\<lparr>og_image_tag := None, ld_json_scripts := [Loaded (JDict image_list_recipe)]\<rparr>"

section \<open>Properties of the VTT cleaner\<close>

lemma clean_vtt_lines_filter:
  "clean_vtt_lines ls = map re_sub_tags (filter line_kept (map strip ls))"
  by (induction ls) (simp_all add: Let_def line_kept_def)

lemma re_sub_tags_plain: "CHR ''<'' \<notin> set s \<Longrightarrow> re_sub_tags s = s"
  by (induction s) (auto simp: Let_def)

lemma strip_decomp:
  "dropWhile isspace s = strip s @ rev (takeWhile isspace (rev (dropWhile isspace s)))"
proof -
  define d where "d = dropWhile isspace s"
  have a: "takeWhile isspace (rev d) @ dropWhile isspace (rev d) = rev d"
    by (rule takeWhile_dropWhile_id)
  have "d = rev (rev d)" by simp
  also have "\<dots> = rev (takeWhile isspace (rev d) @ dropWhile isspace (rev d))"
    by (simp only: a)
  also have "\<dots> = rev (dropWhile isspace (rev d)) @ rev (takeWhile isspace (rev d))"
    by (rule rev_append)
  finally show ?thesis by (simp only: d_def strip_def)
qed

lemma strip_sublist: "sublist (strip s) s"
proof -
  have "prefix (strip s) (dropWhile isspace s)"
    using strip_decomp [of s] by (metis prefixI)
  moreover have "suffix (dropWhile isspace s) s" by (rule suffix_dropWhile)
  ultimately show ?thesis unfolding sublist_altdef' by blast
qed

lemma strip_ends:
  assumes ne: "strip s \<noteq> []"
  shows "\<not> isspace (hd (strip s)) \<and> \<not> isspace (last (strip s))"
proof -
  define d where "d = dropWhile isspace s"
  define e where "e = dropWhile isspace (rev d)"
  have st: "strip s = rev e" by (simp only: strip_def d_def e_def)
  from ne st have e: "e \<noteq> []" by simp
  then have "\<not> isspace (hd e)" unfolding e_def by (rule hd_dropWhile)
  moreover from e have "last (rev e) = hd e" by (simp add: last_rev)
  ultimately have l: "\<not> isspace (last (strip s))" by (simp add: st)
  have dne: "d \<noteq> []"
  proof
    assume "d = []"
    then have "e = []" by (simp add: e_def)
    with e show False by simp
  qed
  then have hd: "\<not> isspace (hd d)" unfolding d_def by (rule hd_dropWhile)
  have "d = strip s @ rev (takeWhile isspace (rev d))"
    unfolding d_def by (rule strip_decomp)
  with ne have "hd d = hd (strip s)" by (metis hd_append2)
  with hd l show ?thesis by simp
qed

lemma strip_fixed:
  assumes "s = [] \<or> (\<not> isspace (hd s) \<and> \<not> isspace (last s))"
  shows "strip s = s"
proof (cases "s = []")
  case True
  then show ?thesis by (simp add: strip_def)
next
  case False
  with assms have h: "\<not> isspace (hd s)" and l: "\<not> isspace (last s)" by simp_all
  from False h have d: "dropWhile isspace s = s" by (cases s) simp_all
  from False have r: "rev s \<noteq> []" by simp
  from False have "hd (rev s) = last s" by (simp add: hd_rev)
  with l have "\<not> isspace (hd (rev s))" by simp
  with r have "dropWhile isspace (rev s) = rev s" by (cases "rev s") simp_all
  with d show ?thesis by (simp add: strip_def)
qed


lemma splitlines_Cons:
  "splitlines (c # cs) =
     (if islinebreak c
      then [] # splitlines (if c = CHR 0x0D \<and> cs \<noteq> [] \<and> hd cs = CHR 0x0A then tl cs else cs)
      else (case splitlines cs of [] \<Rightarrow> [[c]] | l # ls \<Rightarrow> (c # l) # ls))"
  by (cases cs) simp_all

lemma splitlines_prefix: "splitlines s = l # ls \<Longrightarrow> prefix l s"
proof (induction s arbitrary: l ls)
  case Nil
  then show ?case by simp
next
  case (Cons c cs)
  show ?case
  proof (cases "islinebreak c")
    case True
    with Cons.prems have "l = []" by (simp only: splitlines_Cons if_True list.inject)
    then show ?thesis by simp
  next
    case False
    show ?thesis
    proof (cases "splitlines cs")
      case Nil
      with False Cons.prems have "l = [c]" by (simp add: splitlines_Cons del: splitlines.simps)
      then show ?thesis by simp
    next
      case (Cons k ks)
      with False Cons.prems have "l = c # k" by (simp add: splitlines_Cons del: splitlines.simps)
      moreover from Cons have "prefix k cs" by (rule Cons.IH)
      ultimately show ?thesis by simp
    qed
  qed
qed

lemma splitlines_sublist: "l \<in> set (splitlines s) \<Longrightarrow> sublist l s"
proof (induction "length s" arbitrary: s l rule: less_induct)
  case less
  show ?case
  proof (cases s)
    case Nil
    with less.prems show ?thesis by simp
  next
    case (Cons c cs)
    show ?thesis
    proof (cases "islinebreak c")
      case True
      define r where "r = (if c = CHR 0x0D \<and> cs \<noteq> [] \<and> hd cs = CHR 0x0A then tl cs else cs)"
      from True Cons have sp: "splitlines s = [] # splitlines r"
        by (simp only: splitlines_Cons r_def if_True)
      have suf: "suffix r cs" by (cases cs) (auto simp: r_def suffix_Cons)
      then have len: "length r < length s" using Cons by (auto dest: suffix_length_le)
      from less.prems sp have "l = [] \<or> l \<in> set (splitlines r)" by auto
      then show ?thesis
      proof
        assume "l = []"
        then show ?thesis by simp
      next
        assume "l \<in> set (splitlines r)"
        with len have "sublist l r" by (rule less.hyps)
        moreover from suf have "sublist r s" using Cons by (auto simp: suffix_Cons)
        ultimately show ?thesis by (rule sublist_order.order.trans)
      qed
    next
      case False
      show ?thesis
      proof (cases "splitlines cs")
        case Nil
        with False less.prems Cons have "l = [c]"
          by (simp add: splitlines_Cons del: splitlines.simps)
        with Cons show ?thesis by (simp add: sublist_Cons_right)
      next
        case (Cons k ks) note sc = this
        with False less.prems \<open>s = c # cs\<close> have "l = c # k \<or> l \<in> set ks"
          by (simp add: splitlines_Cons del: splitlines.simps)
        then show ?thesis
        proof
          assume "l = c # k"
          moreover from sc have "prefix k cs" by (rule splitlines_prefix)
          ultimately show ?thesis using \<open>s = c # cs\<close> by (simp add: sublist_Cons_right)
        next
          assume "l \<in> set ks"
          with sc have "l \<in> set (splitlines cs)" by simp
          moreover have "length cs < length s" using \<open>s = c # cs\<close> by simp
          ultimately have "sublist l cs" by (rule less.hyps [rotated])
          then show ?thesis using \<open>s = c # cs\<close> by (simp add: sublist_Cons_right)
        qed
      qed
    qed
  qed
qed

lemma splitlines_no_break:
  "l \<in> set (splitlines s) \<Longrightarrow> c \<in> set l \<Longrightarrow> \<not> islinebreak c"
proof (induction "length s" arbitrary: s l rule: less_induct)
  case less
  show ?case
  proof (cases s)
    case Nil
    with less.prems show ?thesis by simp
  next
    case (Cons a as)
    show ?thesis
    proof (cases "islinebreak a")
      case True
      define r where "r = (if a = CHR 0x0D \<and> as \<noteq> [] \<and> hd as = CHR 0x0A then tl as else as)"
      from True Cons have sp: "splitlines s = [] # splitlines r"
        by (simp only: splitlines_Cons r_def if_True)
      have "length r \<le> length as" by (simp add: r_def)
      then have len: "length r < length s" using Cons by simp
      from less.prems sp have "l \<in> set (splitlines r)" by auto
      with len show ?thesis using less.prems(2) by (rule less.hyps)
    next
      case False
      show ?thesis
      proof (cases "splitlines as")
        case Nil
        with False less.prems Cons have "l = [a]"
          by (simp add: splitlines_Cons del: splitlines.simps)
        with less.prems(2) False show ?thesis by simp
      next
        case (Cons k ks) note sc = this
        have len: "length as < length s" using \<open>s = a # as\<close> by simp
        from sc False less.prems \<open>s = a # as\<close> have "l = a # k \<or> l \<in> set ks"
          by (simp add: splitlines_Cons del: splitlines.simps)
        then show ?thesis
        proof
          assume lk: "l = a # k"
          from sc have "k \<in> set (splitlines as)" by simp
          with len have "c \<in> set k \<Longrightarrow> \<not> islinebreak c" by (rule less.hyps)
          with lk less.prems(2) False show ?thesis by auto
        next
          assume "l \<in> set ks"
          with sc have "l \<in> set (splitlines as)" by simp
          with len show ?thesis using less.prems(2) by (rule less.hyps)
        qed
      qed
    qed
  qed
qed

lemma splitlines_single:
  "s \<noteq> [] \<Longrightarrow> \<forall>c \<in> set s. \<not> islinebreak c \<Longrightarrow> splitlines s = [s]"
proof (induction s)
  case Nil
  then show ?case by simp
next
  case (Cons c cs)
  then have nb: "\<not> islinebreak c" by simp
  show ?case
  proof (cases "cs = []")
    case True
    with nb show ?thesis by (simp add: splitlines_Cons del: splitlines.simps(2))
  next
    case False
    with Cons have "splitlines cs = [cs]" by simp
    with nb show ?thesis by (simp add: splitlines_Cons del: splitlines.simps)
  qed
qed


lemma replace_two_spaces_fixed: "\<not> contains ''  '' s \<Longrightarrow> replace_two_spaces s = s"
  by (induction s rule: replace_two_spaces.induct)
     (auto simp: contains_def sublist_Cons_right)

lemma prefix_before_sep:
  assumes "c \<notin> set p" and "prefix p (a @ c # b)"
  shows "prefix p a"
proof -
  from assms(2) have "prefix p a \<or> (\<exists>us. p = a @ us \<and> prefix us (c # b))"
    by (simp only: prefix_append)
  then show ?thesis
  proof
    assume "prefix p a"
    then show ?thesis .
  next
    assume "\<exists>us. p = a @ us \<and> prefix us (c # b)"
    then obtain us where p: "p = a @ us" and u: "prefix us (c # b)" by blast
    show ?thesis
    proof (cases us)
      case Nil
      with p show ?thesis by simp
    next
      case (Cons u vs)
      with u have "u = c" by simp
      with Cons p assms(1) show ?thesis by simp
    qed
  qed
qed

lemma sublist_across_sep:
  assumes c: "c \<notin> set p" and s: "sublist p (a @ c # b)"
  shows "sublist p a \<or> sublist p b"
proof -
  from s have "sublist p a \<or> sublist p (c # b) \<or>
      (\<exists>p1 p2. p = p1 @ p2 \<and> suffix p1 a \<and> prefix p2 (c # b))"
    by (simp only: sublist_append)
  then consider "sublist p a" | "sublist p (c # b)"
    | p1 p2 where "p = p1 @ p2" "suffix p1 a" "prefix p2 (c # b)" by blast
  then show ?thesis
  proof cases
    case 1
    then show ?thesis by simp
  next
    case 2
    then have "prefix p (c # b) \<or> sublist p b" by (simp only: sublist_Cons_right)
    then show ?thesis
    proof
      assume "prefix p (c # b)"
      with c have "p = []" by (cases p) auto
      then show ?thesis by simp
    next
      assume "sublist p b"
      then show ?thesis by simp
    qed
  next
    case 3
    from 3(1,3) c have "p2 = []" by (cases p2) auto
    with 3(1,2) show ?thesis by auto
  qed
qed

lemma double_space_across_sep:
  assumes a: "\<not> sublist ''  '' a" and la: "a \<noteq> []" "last a \<noteq> CHR '' ''"
    and b: "\<not> sublist ''  '' b" and hb: "b \<noteq> []" "hd b \<noteq> CHR '' ''"
  shows "\<not> sublist ''  '' (a @ CHR '' '' # b)"
proof
  assume "sublist ''  '' (a @ CHR '' '' # b)"
  then have "sublist ''  '' a \<or> sublist ''  '' (CHR '' '' # b) \<or>
      (\<exists>p1 p2. ''  '' = p1 @ p2 \<and> suffix p1 a \<and> prefix p2 (CHR '' '' # b))"
    by (simp only: sublist_append)
  with a consider "sublist ''  '' (CHR '' '' # b)"
    | p1 p2 where "''  '' = p1 @ p2" "suffix p1 a" "prefix p2 (CHR '' '' # b)" by blast
  then show False
  proof cases
    case 1
    then have "prefix ''  '' (CHR '' '' # b) \<or> sublist ''  '' b"
      by (simp only: sublist_Cons_right)
    with b have "prefix ''  '' (CHR '' '' # b)" by simp
    with hb show False by (cases b) auto
  next
    case 2
    from 2(1) have "p1 = [] \<or> p1 = '' '' \<or> p1 = ''  ''"
      by (auto simp: Cons_eq_append_conv)
    then show False
    proof (elim disjE)
      assume "p1 = []"
      with 2(1,3) have "prefix ''  '' (CHR '' '' # b)" by simp
      with hb show False by (cases b) auto
    next
      assume "p1 = '' ''"
      with 2(2) la show False by (auto simp: suffix_def)
    next
      assume "p1 = ''  ''"
      with 2(2) a show False by auto
    qed
  qed
qed

lemma upper_char_space: "upper_char (CHR '' '') = CHR '' ''"
  by (simp add: upper_char_def)

lemma lower_char_space: "lower_char (CHR '' '') = CHR '' ''"
  by (simp add: lower_char_def)

lemma line_kept_across_sep:
  assumes a: "line_kept a" and b: "line_kept b"
  shows "line_kept (a @ CHR '' '' # b)"
proof -
  let ?s = "a @ CHR '' '' # b"
  from b have bne: "b \<noteq> []" by (simp add: line_kept_def)
  have "CHR '' '' \<in> set (upper ?s)"
    by (simp add: upper_def upper_char_space)
  then have u: "upper ?s \<noteq> ''WEBVTT''" by auto
  have "\<not> sublist ''-->'' ?s"
  proof
    assume "sublist ''-->'' ?s"
    moreover have "CHR '' '' \<notin> set ''-->''" by simp
    ultimately have "sublist ''-->'' a \<or> sublist ''-->'' b"
      by (rule sublist_across_sep [rotated])
    with a b show False by (simp add: line_kept_def contains_def)
  qed
  then have c: "\<not> contains ''-->'' ?s" by (simp add: contains_def)
  have sp: "\<not> isdigit (CHR '' '')" by (simp add: isdigit_def)
  from bne have "butlast ?s = a @ CHR '' '' # butlast b" by (simp add: butlast_append)
  with sp have d: "\<not> re_match_digits ?s" by (simp add: re_match_digits_def Let_def)
  have k: "\<not> startswith (lower ?s) p" if "CHR '' '' \<notin> set p" "\<not> startswith (lower a) p" for p
  proof
    assume "startswith (lower ?s) p"
    then have "prefix p (lower a @ CHR '' '' # lower b)"
      by (simp add: startswith_def lower_def lower_char_space)
    with that(1) have "prefix p (lower a)" by (rule prefix_before_sep)
    with that(2) show False by (simp add: startswith_def)
  qed
  from a have "\<not> startswith (lower ?s) ''kind:''"
    by (intro k) (simp_all add: line_kept_def)
  moreover from a have "\<not> startswith (lower ?s) ''language:''"
    by (intro k) (simp_all add: line_kept_def)
  ultimately show ?thesis using u c d by (simp add: line_kept_def)
qed

lemma plain_line_across_sep:
  assumes a: "plain_line a" and b: "plain_line b"
  shows "plain_line (a @ CHR '' '' # b)"
proof -
  let ?s = "a @ CHR '' '' # b"
  have spc: "isspace (CHR '' '')" by (simp add: isspace_def)
  have nbr: "\<not> islinebreak (CHR '' '')" by (simp add: islinebreak_def)
  from a b have ne: "a \<noteq> []" "b \<noteq> []" by (simp_all add: plain_line_def)
  from a ne have h: "\<not> isspace (hd ?s)" by (simp add: plain_line_def)
  from b ne have l: "\<not> isspace (last ?s)" by (simp add: plain_line_def)
  from a b nbr have br: "\<forall>c \<in> set ?s. \<not> islinebreak c" by (auto simp: plain_line_def)
  from a b have lt: "CHR ''<'' \<notin> set ?s" by (simp add: plain_line_def)
  from a spc have la: "last a \<noteq> CHR '' ''" by (auto simp: plain_line_def)
  from b spc have hb: "hd b \<noteq> CHR '' ''" by (auto simp: plain_line_def)
  from a b have "\<not> sublist ''  '' a" "\<not> sublist ''  '' b"
    by (simp_all add: plain_line_def contains_def)
  with ne la hb have "\<not> sublist ''  '' ?s" by (intro double_space_across_sep)
  then have ds: "\<not> contains ''  '' ?s" by (simp add: contains_def)
  from a b have "line_kept ?s" by (intro line_kept_across_sep) (simp_all add: plain_line_def)
  with h l br lt ds show ?thesis unfolding plain_line_def by blast
qed

lemma plain_line_join:
  "ks \<noteq> [] \<Longrightarrow> \<forall>k \<in> set ks. plain_line k \<Longrightarrow> plain_line (join '' '' ks)"
proof (induction "'' ''" ks rule: join.induct)
  case 1
  then show ?case by simp
next
  case (2 x)
  then show ?case by simp
next
  case (3 x y ys)
  then have "plain_line x" and "plain_line (join '' '' (y # ys))" by simp_all
  then have "plain_line (x @ CHR '' '' # join '' '' (y # ys))" by (rule plain_line_across_sep)
  then show ?case by simp
qed

lemma clean_vtt_text_plain_line:
  assumes "plain_line k"
  shows "clean_vtt_text k = k"
proof -
  from assms have ne: "k \<noteq> []" and nb: "\<forall>c \<in> set k. \<not> islinebreak c"
    and ends: "k = [] \<or> (\<not> isspace (hd k) \<and> \<not> isspace (last k))"
    and lt: "CHR ''<'' \<notin> set k" and ds: "\<not> contains ''  '' k" and kept: "line_kept k"
    by (simp_all add: plain_line_def)
  from ne nb have sl: "splitlines k = [k]" by (rule splitlines_single)
  from ends have st: "strip k = k" by (rule strip_fixed)
  from lt have rs: "re_sub_tags k = k" by (rule re_sub_tags_plain)
  from ds have rp: "replace_two_spaces k = k" by (rule replace_two_spaces_fixed)
  have "clean_vtt_lines [k] = [k]"
    by (simp only: clean_vtt_lines_filter list.map st filter.simps kept if_True rs)
  then show ?thesis by (simp only: clean_vtt_text_def sl join.simps rp st)
qed


lemma clean_vtt_text_Nil: "clean_vtt_text [] = []"
  by (simp add: clean_vtt_text_def strip_def)

lemma kept_lines_plain:
  assumes lt: "CHR ''<'' \<notin> set x" and ds: "\<not> contains ''  '' x"
    and k: "k \<in> set (filter line_kept (map strip (splitlines x)))"
  shows "plain_line k"
proof -
  from k obtain l where l: "l \<in> set (splitlines x)" and kl: "k = strip l" and kept: "line_kept k"
    by auto
  from kept have ne: "k \<noteq> []" by (simp add: line_kept_def)
  have "sublist k l" unfolding kl by (rule strip_sublist)
  then have sub_l: "set k \<subseteq> set l" by (rule set_mono_sublist)
  from l have "sublist l x" by (rule splitlines_sublist)
  with \<open>sublist k l\<close> have kx: "sublist k x" by (rule sublist_order.order.trans)
  then have "set k \<subseteq> set x" by (rule set_mono_sublist)
  with lt have lt': "CHR ''<'' \<notin> set k" by auto
  have ds': "\<not> contains ''  '' k"
  proof
    assume "contains ''  '' k"
    then have "sublist ''  '' k" by (simp add: contains_def)
    then have "sublist ''  '' x" using kx by (rule sublist_order.order.trans)
    with ds show False by (simp add: contains_def)
  qed
  have nb: "\<forall>c \<in> set k. \<not> islinebreak c"
  proof
    fix c assume "c \<in> set k"
    with sub_l have "c \<in> set l" by auto
    with l show "\<not> islinebreak c" by (rule splitlines_no_break)
  qed
  from ne have "\<not> isspace (hd k) \<and> \<not> isspace (last k)" unfolding kl by (rule strip_ends)
  with ne nb lt' ds' kept show ?thesis unfolding plain_line_def by blast
qed

text \<open>
  A class of inputs on which a second pass changes nothing: the inputs that hold no \<open><\<close>
  character and no two spaces in a row.
\<close>

lemma clean_vtt_text_idempotent_no_markup:
  assumes lt: "CHR ''<'' \<notin> set x" and ds: "\<not> contains ''  '' x"
  shows "clean_vtt_text (clean_vtt_text x) = clean_vtt_text x"
proof -
  define ks where "ks = filter line_kept (map strip (splitlines x))"
  have plain: "\<forall>k \<in> set ks. plain_line k"
    unfolding ks_def using lt ds by (blast intro: kept_lines_plain)
  then have "map re_sub_tags ks = ks"
    by (intro map_idI re_sub_tags_plain) (simp add: plain_line_def)
  then have lines: "clean_vtt_lines (splitlines x) = ks"
    by (simp only: clean_vtt_lines_filter ks_def)
  show ?thesis
  proof (cases "ks = []")
    case True
    with lines have "clean_vtt_text x = []"
      by (simp add: clean_vtt_text_def strip_def)
    then show ?thesis by (simp add: clean_vtt_text_Nil)
  next
    case False
    then have y: "plain_line (join '' '' ks)" using plain by (rule plain_line_join)
    then have "replace_two_spaces (join '' '' ks) = join '' '' ks"
      by (intro replace_two_spaces_fixed) (simp add: plain_line_def)
    moreover from y have "strip (join '' '' ks) = join '' '' ks"
      by (intro strip_fixed) (simp add: plain_line_def)
    ultimately have "clean_vtt_text x = join '' '' ks"
      by (simp only: clean_vtt_text_def lines)
    moreover from y have "clean_vtt_text (join '' '' ks) = join '' '' ks"
      by (rule clean_vtt_text_plain_line)
    ultimately show ?thesis by simp
  qed
qed

lemma set_re_sub_tags: "set (re_sub_tags s) \<subseteq> insert (CHR '' '') (set s)"
proof (induction s rule: re_sub_tags.induct)
  case 1
  then show ?case by simp
next
  case (2 c cs)
  define rest where "rest = dropWhile (\<lambda>x. x \<noteq> CHR ''>'') cs"
  show ?case
  proof (cases "c = CHR ''<'' \<and> takeWhile (\<lambda>x. x \<noteq> CHR ''>'') cs \<noteq> [] \<and> rest \<noteq> []")
    case True
    then have ih: "set (re_sub_tags (tl rest)) \<subseteq> insert (CHR '' '') (set (tl rest))"
      using 2(1) [OF refl refl] by (simp add: rest_def)
    have "set (tl rest) \<subseteq> set rest" by (cases rest) auto
    also have "set rest \<subseteq> set cs" unfolding rest_def by (rule set_dropWhileD [THEN subsetI])
    finally have "set (tl rest) \<subseteq> set cs" .
    with ih have "set (re_sub_tags (tl rest)) \<subseteq> insert (CHR '' '') (set cs)" by auto
    moreover from True have "re_sub_tags (c # cs) = CHR '' '' # re_sub_tags (tl rest)"
      by (simp add: rest_def)
    ultimately show ?thesis by auto
  next
    case False
    then have ih: "set (re_sub_tags cs) \<subseteq> insert (CHR '' '') (set cs)"
      using 2(2) [OF refl refl] by (simp add: rest_def)
    from False have "re_sub_tags (c # cs) = c # re_sub_tags cs"
      by (auto simp: rest_def Let_def)
    with ih show ?thesis by auto
  qed
qed

lemma set_join: "set (join sep ls) \<subseteq> set sep \<union> (\<Union>l \<in> set ls. set l)"
  by (induction sep ls rule: join.induct) auto

lemma set_replace_two_spaces: "set (replace_two_spaces s) \<subseteq> set s"
  by (induction s rule: replace_two_spaces.induct) auto

lemma set_strip: "set (strip s) \<subseteq> set s"
  using strip_sublist by (rule set_mono_sublist)

lemma clean_vtt_lines_no_break:
  assumes "l \<in> set (clean_vtt_lines (splitlines x))" and "c \<in> set l"
  shows "\<not> islinebreak c"
proof -
  from assms(1) obtain k where k: "k \<in> set (splitlines x)" and l: "l = re_sub_tags (strip k)"
    by (auto simp: clean_vtt_lines_filter)
  from assms(2) l set_re_sub_tags [of "strip k"]
  have "c = CHR '' '' \<or> c \<in> set (strip k)" by auto
  then show ?thesis
  proof
    assume "c = CHR '' ''"
    then show ?thesis by (simp add: islinebreak_def)
  next
    assume "c \<in> set (strip k)"
    with set_strip [of k] have "c \<in> set k" by auto
    with k show ?thesis by (rule splitlines_no_break)
  qed
qed

lemma clean_vtt_text_no_break:
  assumes "c \<in> set (clean_vtt_text x)"
  shows "\<not> islinebreak c"
proof -
  let ?lines = "clean_vtt_lines (splitlines x)"
  from assms set_strip have "c \<in> set (replace_two_spaces (join '' '' ?lines))"
    unfolding clean_vtt_text_def by auto
  with set_replace_two_spaces have "c \<in> set (join '' '' ?lines)" by auto
  with set_join [of "'' ''" ?lines] have "c = CHR '' '' \<or> (\<exists>l \<in> set ?lines. c \<in> set l)"
    by auto
  then show ?thesis
  proof
    assume "c = CHR '' ''"
    then show ?thesis by (simp add: islinebreak_def)
  next
    assume "\<exists>l \<in> set ?lines. c \<in> set l"
    then obtain l where "l \<in> set ?lines" and "c \<in> set l" by blast
    then show ?thesis by (rule clean_vtt_lines_no_break)
  qed
qed

lemma clean_vtt_text_ends:
  "clean_vtt_text x \<noteq> [] \<Longrightarrow>
     \<not> isspace (hd (clean_vtt_text x)) \<and> \<not> isspace (last (clean_vtt_text x))"
  unfolding clean_vtt_text_def by (rule strip_ends)

lemma clean_vtt_text_fixed:
  assumes ne: "y \<noteq> []" and nb: "\<forall>c \<in> set y. \<not> islinebreak c"
    and ends: "\<not> isspace (hd y) \<and> \<not> isspace (last y)"
    and kept: "line_kept y" and rs: "re_sub_tags y = y" and ds: "\<not> contains ''  '' y"
  shows "clean_vtt_text y = y"
proof -
  from ne nb have sl: "splitlines y = [y]" by (rule splitlines_single)
  from ends have st: "strip y = y" by (intro strip_fixed) simp
  from ds have rp: "replace_two_spaces y = y" by (rule replace_two_spaces_fixed)
  have "clean_vtt_lines [y] = [y]"
    by (simp only: clean_vtt_lines_filter list.map st filter.simps kept if_True rs)
  then show ?thesis by (simp only: clean_vtt_text_def sl join.simps rp st)
qed

text \<open>
  C4 (as amended): cleaning the output of the cleaner again yields the same string
  whenever that output is empty, or is not itself a line that the loop of the cleaner
  drops (the header token, a cue index, a timing line, a \<^verbatim>\<open>kind:\<close> or \<^verbatim>\<open>language:\<close> line),
  holds no inline tag and holds no two spaces in a row.
\<close>

theorem clean_vtt_text_idempotent_on_clean_output:
  assumes "clean_vtt_text x = [] \<or>
           (line_kept (clean_vtt_text x) \<and>
            re_sub_tags (clean_vtt_text x) = clean_vtt_text x \<and>
            \<not> contains ''  '' (clean_vtt_text x))"
  shows "clean_vtt_text (clean_vtt_text x) = clean_vtt_text x"
proof (cases "clean_vtt_text x = []")
  case True
  then show ?thesis by (simp add: clean_vtt_text_Nil)
next
  case False
  with assms have kept: "line_kept (clean_vtt_text x)"
    and rs: "re_sub_tags (clean_vtt_text x) = clean_vtt_text x"
    and ds: "\<not> contains ''  '' (clean_vtt_text x)"
    by simp_all
  have nb: "\<forall>c \<in> set (clean_vtt_text x). \<not> islinebreak c"
    using clean_vtt_text_no_break [of _ x] by blast
  from False have ends:
    "\<not> isspace (hd (clean_vtt_text x)) \<and> \<not> isspace (last (clean_vtt_text x))"
    by (rule clean_vtt_text_ends)
  from False nb ends kept rs ds show ?thesis by (rule clean_vtt_text_fixed)
qed

text \<open>
  C4, instances of the amended statement: a line with inline tags, a line with two spaces
  in a row and a line with a \<open><\<close> that opens no tag are cleaned to outputs that satisfy
  the hypothesis, and cleaning them twice gives the same.
\<close>

theorem clean_vtt_text_idempotent_on_clean_output_witness:
  "clean_vtt_text ''<b>hello</b> world'' = ''hello world'' \<and>
   line_kept ''hello world'' \<and> re_sub_tags ''hello world'' = ''hello world'' \<and>
   \<not> contains ''  '' ''hello world'' \<and>
   clean_vtt_text (clean_vtt_text ''<b>hello</b> world'') = clean_vtt_text ''<b>hello</b> world'' \<and>
   clean_vtt_text ''a  b'' = ''a b'' \<and>
   clean_vtt_text (clean_vtt_text ''a  b'') = clean_vtt_text ''a  b'' \<and>
   clean_vtt_text ''3 < 5'' = ''3 < 5'' \<and>
   clean_vtt_text (clean_vtt_text ''3 < 5'') = clean_vtt_text ''3 < 5''"
proof -
  have c1: "clean_vtt_text ''<b>hello</b> world'' = ''hello world''" by code_simp
  have k1: "line_kept ''hello world''" by code_simp
  have r1: "re_sub_tags ''hello world'' = ''hello world''" by code_simp
  have d1: "\<not> contains ''  '' ''hello world''" by code_simp
  have c2: "clean_vtt_text ''a  b'' = ''a b''" by code_simp
  have k2: "line_kept ''a b''" by code_simp
  have r2: "re_sub_tags ''a b'' = ''a b''" by code_simp
  have d2: "\<not> contains ''  '' ''a b''" by code_simp
  have c3: "clean_vtt_text ''3 < 5'' = ''3 < 5''" by code_simp
  have k3: "line_kept ''3 < 5''" by code_simp
  have r3: "re_sub_tags ''3 < 5'' = ''3 < 5''" by code_simp
  have d3: "\<not> contains ''  '' ''3 < 5''" by code_simp
  from clean_vtt_text_idempotent_on_clean_output [of "''<b>hello</b> world''"]
    clean_vtt_text_idempotent_on_clean_output [of "''a  b''"]
    clean_vtt_text_idempotent_on_clean_output [of "''3 < 5''"]
    c1 k1 r1 d1 c2 k2 r2 d2 c3 k3 r3 d3
  show ?thesis by simp
qed

text \<open>
  C4, as stated, fails: the cue text \<^verbatim>\<open><c>12</c>\<close> is cleaned to \<^verbatim>\<open>12\<close>, and \<^verbatim>\<open>12\<close> alone on a
  line is a cue index, which the cleaner drops, so cleaning twice gives the empty string.
\<close>

theorem clean_vtt_text_not_idempotent:
  "clean_vtt_text (clean_vtt_text ''<c>12</c>'') \<noteq> clean_vtt_text ''<c>12</c>''"
  by code_simp

text \<open>
  C5: the cleaner is claimed to collapse repeated spaces, so that its output never holds
  two spaces in a row. The single pass of \<^verbatim>\<open>replace("  ", " ")\<close> only shortens a run of
  spaces: on the input \<^verbatim>\<open>a   b\<close> (three spaces) the output is \<^verbatim>\<open>a  b\<close>, which still holds two
  spaces in a row; the same happens on \<^verbatim>\<open>a <b> b\<close>, where the tag becomes the third space.
\<close>

theorem clean_vtt_text_keeps_double_space:
  "clean_vtt_text ''a   b'' = ''a  b'' \<and> contains ''  '' (clean_vtt_text ''a   b'') \<and>
   clean_vtt_text ''a <b> b'' = ''a  b''"
  by code_simp

section \<open>Properties of the JSON-LD recipe finder\<close>


lemma find_recipe_JDict:
  "find_recipe_in_jsonld (JDict d) =
     (if spec_is_recipe (JDict d) then Some (JDict d)
      else (case map_of d ''@graph'' of
              Some graph \<Rightarrow>
                (case find_recipe_in_jsonld graph of
                   Some result \<Rightarrow> if truthy result then Some result else None
                 | None \<Rightarrow> None)
            | None \<Rightarrow> None))"
  by (simp add: spec_is_recipe_def spec_type_sequence_def Let_def)

lemma spec_is_recipe_truthy: "spec_is_recipe node \<Longrightarrow> truthy node"
  by (cases node) (auto simp: spec_is_recipe_def spec_type_sequence_def dict_get_def Let_def)

lemma find_recipe_truthy:
  "find_recipe_in_jsonld data = Some r \<Longrightarrow> spec_is_recipe r \<and> truthy r"
  "find_recipe_in_items items = Some r \<Longrightarrow> spec_is_recipe r \<and> truthy r"
proof (induction data and items arbitrary: r and r
    rule: find_recipe_in_jsonld_find_recipe_in_items.induct)
  case (1 d)
  show ?case
  proof (cases "spec_is_recipe (JDict d)")
    case True
    with 1(2) have "r = JDict d" by (simp add: find_recipe_JDict del: find_recipe_in_jsonld.simps)
    with True spec_is_recipe_truthy [of "JDict d"] show ?thesis by simp
  next
    case False
    with 1(2) obtain graph where g: "map_of d ''@graph'' = Some graph"
      and r: "find_recipe_in_jsonld graph = Some r"
      by (auto simp: find_recipe_JDict simp del: find_recipe_in_jsonld.simps
          split: option.splits if_splits)
    from False have "JStr ''Recipe'' \<notin> set (case dict_get d ''@type'' (JStr []) of
        JList ts \<Rightarrow> ts | _ \<Rightarrow> [dict_get d ''@type'' (JStr [])])"
      by (simp add: spec_is_recipe_def spec_type_sequence_def Let_def)
    then show ?thesis using g r by (intro 1(1)) simp_all
  qed
next
  case (9 item rest)
  then show ?case by (auto split: option.splits if_splits)
qed simp_all





section \<open>Properties of the transcript endpoint\<close>

lemma first_vtt_url_find:
  "first_vtt_url entries =
     (case List.find (\<lambda>t. ext t = Some ''vtt'' \<and> spec_has_url t) entries of
        Some t \<Rightarrow> track_url t | None \<Rightarrow> None)"
  by (induction entries) (auto simp: spec_has_url_def split: option.splits)

lemma first_url_find:
  "first_url entries =
     (case List.find spec_has_url entries of Some t \<Rightarrow> track_url t | None \<Rightarrow> None)"
  by (induction entries) (auto simp: spec_has_url_def split: option.splits)

lemma first_vtt_url_truthy: "first_vtt_url entries = Some u \<Longrightarrow> u \<noteq> []"
  by (induction entries) (auto split: if_splits)

lemma first_url_truthy: "first_url entries = Some u \<Longrightarrow> u \<noteq> []"
  by (induction entries) (auto split: if_splits)

lemma pick_caption_url_truthy: "pick_caption_url lang store = Some u \<Longrightarrow> u \<noteq> []"
  by (auto simp: pick_caption_url_def Let_def split: option.splits
           dest: first_vtt_url_truthy first_url_truthy)

lemma pick_caption_url_spec: "pick_caption_url lang store = spec_pick_in_store lang store"
proof -
  define entries where "entries = (case map_of store lang of Some es \<Rightarrow> es | None \<Rightarrow> [])"
  have "pick_caption_url lang store =
          (case first_vtt_url entries of Some u \<Rightarrow> Some u | None \<Rightarrow> first_url entries)"
    unfolding pick_caption_url_def entries_def Let_def by (rule refl)
  also have "\<dots> = (case List.find (\<lambda>t. ext t = Some ''vtt'' \<and> spec_has_url t) entries of
           Some t \<Rightarrow> track_url t
         | None \<Rightarrow> (case List.find spec_has_url entries of
                Some t \<Rightarrow> track_url t | None \<Rightarrow> None))"
  proof (cases "List.find (\<lambda>t. ext t = Some ''vtt'' \<and> spec_has_url t) entries")
    case None
    then show ?thesis by (simp add: first_vtt_url_find first_url_find)
  next
    case (Some t)
    then have "spec_has_url t" by (auto simp: find_Some_iff)
    then obtain u where "track_url t = Some u"
      by (auto simp: spec_has_url_def split: option.splits)
    with Some show ?thesis by (simp add: first_vtt_url_find)
  qed
  finally show ?thesis unfolding spec_pick_in_store_def entries_def Let_def .
qed

lemma choose_caption_url_spec: "choose_caption_url lang info = spec_caption_url lang info"
proof -
  define captions where "captions = (case info_subtitles info of Some d \<Rightarrow> d | None \<Rightarrow> [])"
  define auto_captions where
    "auto_captions = (case info_automatic_captions info of Some d \<Rightarrow> d | None \<Rightarrow> [])"
  have c: "choose_caption_url lang info =
      (if str_truthy (pick_caption_url lang captions) then pick_caption_url lang captions
       else pick_caption_url lang auto_captions)"
    unfolding choose_caption_url_def captions_def auto_captions_def Let_def by (rule refl)
  have s: "spec_caption_url lang info =
      (case pick_caption_url lang captions of
         Some u \<Rightarrow> Some u | None \<Rightarrow> pick_caption_url lang auto_captions)"
    unfolding spec_caption_url_def captions_def auto_captions_def pick_caption_url_spec
    by (rule refl)
  show ?thesis
  proof (cases "pick_caption_url lang captions")
    case None
    with c s show ?thesis by simp
  next
    case (Some u)
    then have "u \<noteq> []" by (rule pick_caption_url_truthy)
    with Some c s show ?thesis by simp
  qed
qed

lemma choose_caption_url_truthy: "choose_caption_url lang info = Some u \<Longrightarrow> u \<noteq> []"
  by (auto simp: choose_caption_url_def Let_def split: if_splits
           dest: pick_caption_url_truthy)

text \<open>
  C2: in the fallback, with the metadata \<open>info\<close> at hand (from step 1, or fetched again
  when step 1 failed), the caption URL is the one the specification describes: manual
  tracks of the language first, then automatic ones; in each store the first
  subtitle-format track with a URL, else the first track with a URL. That URL and no other
  is downloaded, and when there is none the fallback fails with the no-captions error
  without any download.
\<close>

theorem fetch_via_ytdlp_caption_choice:
  assumes "info0 = Some info \<or> (info0 = None \<and> extract_info_second w = Inr info)"
  shows "choose_caption_url lang info = spec_caption_url lang info \<and>
   fetch_via_ytdlp w video_id lang cookies_path cookies_browser info0 =
     (case spec_caption_url lang info of
        None \<Rightarrow>
          (Inl (Exc RuntimeError ''No captions found for requested language''),
           case info0 of
             Some i \<Rightarrow> []
           | None \<Rightarrow>
               snd (fetch_video_info (extract_info_second w) video_id cookies_path
                      cookies_browser))
      | Some caption_url \<Rightarrow>
          (case requests_get w caption_url of
             Inl e \<Rightarrow> Inl e
           | Inr vtt \<Rightarrow> Inr (clean_vtt_text vtt, info),
           (case info0 of
              Some i \<Rightarrow> []
            | None \<Rightarrow>
                snd (fetch_video_info (extract_info_second w) video_id cookies_path
                       cookies_browser))
           @ [RequestsGet caption_url 30]))"
proof -
  have fetched:
    "(case info0 of
        None \<Rightarrow> fetch_video_info (extract_info_second w) video_id cookies_path cookies_browser
      | Some i \<Rightarrow> (Inr i, []))
     = (Inr info,
        case info0 of
          Some i \<Rightarrow> []
        | None \<Rightarrow>
            snd (fetch_video_info (extract_info_second w) video_id cookies_path
                   cookies_browser))"
    using assms by (auto simp: fetch_video_info_def)
  show ?thesis
  proof (cases "choose_caption_url lang info")
    case None
    then show ?thesis
      unfolding fetch_via_ytdlp_def fetched
      by (simp add: choose_caption_url_spec [symmetric])
  next
    case (Some u)
    then have "u \<noteq> []" by (rule choose_caption_url_truthy)
    with Some show ?thesis
      unfolding fetch_via_ytdlp_def fetched
      by (simp add: choose_caption_url_spec [symmetric] split: sum.splits)
  qed
qed

text \<open>
  C2, at a concrete input: the manual store is searched first, its subtitle-format track
  has no usable URL, so the first manual track with a URL is taken, although the automatic
  store holds a subtitle-format track; for a language with no track the fallback fails.
\<close>

theorem fetch_via_ytdlp_caption_choice_witness:
  "spec_caption_url ''en'' example_info = Some ''https://c/manual.json3'' \<and>
   choose_caption_url ''en'' example_info = Some ''https://c/manual.json3'' \<and>
   fetch_via_ytdlp example_world ''v'' ''en'' None None (Some example_info) =
     (Inr ([], example_info), [RequestsGet ''https://c/manual.json3'' 30]) \<and>
   spec_caption_url ''fr'' example_info = None \<and>
   fetch_via_ytdlp example_world ''v'' ''fr'' None None (Some example_info) =
     (Inl (Exc RuntimeError ''No captions found for requested language''), [])"
proof -
  have en: "spec_caption_url ''en'' example_info = Some ''https://c/manual.json3''"
    by (simp add: spec_caption_url_def spec_pick_in_store_def spec_has_url_def example_info_def)
  have fr: "spec_caption_url ''fr'' example_info = None"
    by (simp add: spec_caption_url_def spec_pick_in_store_def spec_has_url_def example_info_def)
  have rg: "requests_get example_world ''https://c/manual.json3'' = Inr ''WEBVTT''"
    by (simp add: example_world_def)
  have cl: "clean_vtt_text ''WEBVTT'' = []" by code_simp
  have h: "Some example_info = Some example_info \<or>
      (Some example_info = None \<and> extract_info_second example_world = Inr example_info)"
    by simp
  from fetch_via_ytdlp_caption_choice [OF h, of "''en''" "''v''" None None]
    fetch_via_ytdlp_caption_choice [OF h, of "''fr''" "''v''" None None]
    en fr rg cl
  show ?thesis by simp
qed

text \<open>
  C1: when the primary lookup returns items whose joined text is not empty, the endpoint
  answers with success, that text and the description and title read in step 1 (none when
  step 1 failed); the only external calls are the metadata fetch of step 1 and the primary
  lookup, so no caption track is downloaded.
\<close>

theorem transcript_primary_success:
  assumes "get_transcript w = Inr transcript_items"
    and "primary_text transcript_items \<noteq> []"
  shows "transcript w cookies_path cookies_browser videoId lang =
           ([(''success'', JBool True),
             (''videoId'', JStr videoId),
             (''transcript'', JStr (primary_text transcript_items)),
             (''description'',
                json_of_str (case extract_info_first w of
                               Inr i \<Rightarrow> info_description i | Inl e \<Rightarrow> None)),
             (''title'',
                json_of_str (case extract_info_first w of
                               Inr i \<Rightarrow> info_title i | Inl e \<Rightarrow> None))],
            snd (fetch_video_info (extract_info_first w) videoId cookies_path cookies_browser)
              @ [GetTranscript videoId [lang] cookies_path]) \<and>
         \<not> list_ex is_caption_fetch
              (snd (transcript w cookies_path cookies_browser videoId lang))"
  using assms
  by (cases "extract_info_first w")
     (simp_all add: transcript_def fetch_video_info_def Let_def)

text \<open>
  C1, at a concrete input: the provider returns two items, the answer carries their joined
  text and the metadata of step 1, and two external calls were made.
\<close>

theorem transcript_primary_success_witness:
  "get_transcript example_world = Inr [Some ''Boil the'', Some ''water''] \<and>
   primary_text [Some ''Boil the'', Some ''water''] = ''Boil the water'' \<and>
   transcript example_world None None ''v'' ''en'' =
     ([(''success'', JBool True),
       (''videoId'', JStr ''v''),
       (''transcript'', JStr ''Boil the water''),
       (''description'', JStr ''About soup''),
       (''title'', JStr ''Soup'')],
      [ExtractInfo \<lparr>cookiefile = None, cookiesfrombrowser = None\<rparr>
         ''https://www.youtube.com/watch?v=v'',
       GetTranscript ''v'' [''en''] None])"
proof -
  have g: "get_transcript example_world = Inr [Some ''Boil the'', Some ''water'']"
    by (simp add: example_world_def)
  have p: "primary_text [Some ''Boil the'', Some ''water''] = ''Boil the water''"
    by code_simp
  then have ne: "primary_text [Some ''Boil the'', Some ''water''] \<noteq> []" by simp
  have e: "extract_info_first example_world = Inr example_info"
    by (simp add: example_world_def)
  from transcript_primary_success [OF g ne, of None None "''v''" "''en''"] g p e
  show ?thesis by (simp add: fetch_video_info_def example_info_def)
qed

text \<open>
  C1, as stated, fails: the provider returns one item holding a single space, so the
  joined text is not empty, but the endpoint strips it, finds it empty and goes on to the
  fallback, which downloads a caption track.
\<close>

theorem transcript_blank_primary_falls_back:
  "get_transcript blank_world = Inr [Some '' ''] \<and>
   join '' '' (map (\<lambda>item. case item of Some t \<Rightarrow> t | None \<Rightarrow> []) [Some '' '']) \<noteq> [] \<and>
   snd (transcript blank_world None None ''v'' ''en'') =
     [ExtractInfo \<lparr>cookiefile = None, cookiesfrombrowser = None\<rparr>
        ''https://www.youtube.com/watch?v=v'',
      GetTranscript ''v'' [''en''] None,
      RequestsGet ''https://c/manual.json3'' 30] \<and>
   list_ex is_caption_fetch (snd (transcript blank_world None None ''v'' ''en''))"
proof -
  have p: "primary_text [Some '' ''] = []" by code_simp
  have c: "choose_caption_url ''en'' example_info = Some ''https://c/manual.json3''"
    by (simp add: choose_caption_url_def pick_caption_url_def example_info_def)
  have "snd (transcript blank_world None None ''v'' ''en'') =
     [ExtractInfo \<lparr>cookiefile = None, cookiesfrombrowser = None\<rparr>
        ''https://www.youtube.com/watch?v=v'',
      GetTranscript ''v'' [''en''] None,
      RequestsGet ''https://c/manual.json3'' 30]"
    by (simp add: transcript_def fetch_via_ytdlp_def fetch_video_info_def blank_world_def p c)
  then show ?thesis by (simp add: blank_world_def)
qed

text \<open>
  C7: a response of the transcript endpoint with \<^verbatim>\<open>success = false\<close> carries
  \<^verbatim>\<open>transcript = none\<close> and an error string.
\<close>

theorem transcript_failure_shape:
  "map_of (fst (transcript w cookies_path cookies_browser videoId lang)) ''success''
     = Some (JBool False) \<longrightarrow>
   map_of (fst (transcript w cookies_path cookies_browser videoId lang)) ''transcript''
     = Some JNull \<and>
   (\<exists>e. map_of (fst (transcript w cookies_path cookies_browser videoId lang)) ''error''
     = Some (JStr e))"
proof -
  define video_info where
    "video_info = (case extract_info_first w of Inr i \<Rightarrow> Some i | Inl _ \<Rightarrow> None)"
  define primary where
    "primary = (case get_transcript w of
               Inl e \<Rightarrow> Inl e
             | Inr transcript_items \<Rightarrow>
                 if primary_text transcript_items = []
                 then Inl (Exc RuntimeError ''Empty transcript from primary API'')
                 else Inr (primary_text transcript_items))"
  obtain fallback calls3 where fb:
    "fetch_via_ytdlp w videoId lang cookies_path cookies_browser video_info = (fallback, calls3)"
    by (cases "fetch_via_ytdlp w videoId lang cookies_path cookies_browser video_info")
  let ?resp = "fst (transcript w cookies_path cookies_browser videoId lang)"
  show ?thesis
  proof (cases primary)
    case (Inr t)
    then have "map_of ?resp ''success'' = Some (JBool True)"
      unfolding transcript_def fetch_video_info_def Let_def primary_def by simp
    then show ?thesis by simp
  next
    case (Inl exc)
    show ?thesis
    proof (cases fallback)
      case (Inr ok)
      with Inl fb have "map_of ?resp ''success'' = Some (JBool True)"
        unfolding transcript_def fetch_video_info_def Let_def primary_def video_info_def
        by (cases ok) simp
      then show ?thesis by simp
    next
      case (Inl fallback_exc)
      with \<open>primary = Inl exc\<close> fb have "map_of ?resp ''transcript'' = Some JNull"
        and "map_of ?resp ''error''
               = Some (JStr (exc_str exc @ '' | fallback: '' @ exc_str fallback_exc))"
        unfolding transcript_def fetch_video_info_def Let_def primary_def video_info_def
        by simp_all
      then show ?thesis by simp
    qed
  qed
qed

text \<open>
  C7, at a concrete input: the primary lookup and the fallback both fail, the response has
  \<^verbatim>\<open>success = false\<close>, no transcript, and the two causes joined in the error string.
\<close>

theorem transcript_failure_shape_witness:
  "map_of (fst (transcript failing_world None None ''v'' ''en'')) ''success''
     = Some (JBool False) \<and>
   map_of (fst (transcript failing_world None None ''v'' ''en'')) ''transcript''
     = Some JNull \<and>
   map_of (fst (transcript failing_world None None ''v'' ''en'')) ''error''
     = Some (JStr ''transcripts disabled | fallback: private video'')"
proof -
  have t: "fst (transcript failing_world None None ''v'' ''en'') =
      [(''success'', JBool False), (''videoId'', JStr ''v''),
       (''error'', JStr ''transcripts disabled | fallback: private video''),
       (''transcript'', JNull), (''description'', JNull), (''title'', JNull)]"
    by (simp add: transcript_def fetch_via_ytdlp_def fetch_video_info_def failing_world_def)
  from transcript_failure_shape [of failing_world None None "''v''" "''en''"] t
  show ?thesis by simp
qed

section \<open>Properties of the recipe scraper\<close>

lemma scrape_failure_keys: "map fst (scrape_failure e) = [''success'', ''error'']"
  by (cases e rule: scrape_failure.cases) simp_all

lemma scrape_failure_success: "map_of (scrape_failure e) ''success'' = Some (JBool False)"
  by (cases e rule: scrape_failure.cases) simp_all

lemma truncate_take: "(if n < length t then take n t else t) = take n t"
  by simp

lemma scrape_page_no_recipe:
  assumes "find_recipe_in_scripts (ld_json_scripts page) = Inr None"
  shows "scrape_page page =
     Inr [(''success'', JBool True),
          (''recipe_data'', JNull),
          (''page_text'', JStr (take 8000 (get_text page))),
          (''title'',
             (case title_string page of
                Some s \<Rightarrow> if s \<noteq> [] then JStr (strip s) else JNull
              | None \<Rightarrow> JNull)),
          (''image_url'',
             (case og_image_tag page of
                Some (Some content) \<Rightarrow> if content \<noteq> [] then JStr content else JNull
              | _ \<Rightarrow> JNull))]"
  using assms unfolding scrape_page_def Let_def truncate_take by simp

lemma scrape_page_recipe:
  assumes "find_recipe_in_scripts (ld_json_scripts page) = Inr (Some (JDict d))"
  shows "scrape_page page =
     (case (if \<not> truthy (case og_image_tag page of
                              Some (Some content) \<Rightarrow> if content \<noteq> [] then JStr content else JNull
                            | _ \<Rightarrow> JNull)
               \<and> truthy (dict_get d ''image'' JNull)
            then recipe_image
                   (case og_image_tag page of
                      Some (Some content) \<Rightarrow> if content \<noteq> [] then JStr content else JNull
                    | _ \<Rightarrow> JNull)
                   (dict_get d ''image'' JNull)
            else Inr (case og_image_tag page of
                        Some (Some content) \<Rightarrow> if content \<noteq> [] then JStr content else JNull
                      | _ \<Rightarrow> JNull)) of
        Inl e \<Rightarrow> Inl e
      | Inr og_image' \<Rightarrow>
          Inr [(''success'', JBool True),
               (''recipe_data'', JDict d),
               (''page_text'',
                  if \<not> truthy (dict_get d ''recipeInstructions'' JNull)
                  then JStr (take 8000 (get_text page)) else JNull),
               (''title'',
                  if truthy (dict_get d ''name'' JNull) then dict_get d ''name'' JNull
                  else (case title_string page of
                          Some s \<Rightarrow> if s \<noteq> [] then JStr (strip s) else JNull
                        | None \<Rightarrow> JNull)),
               (''image_url'', og_image')])"
  using assms unfolding scrape_page_def Let_def truncate_take by simp

lemma scrape_page_success:
  assumes "scrape_page page = Inr r"
  shows "map_of r ''success'' = Some (JBool True)"
proof (cases "find_recipe_in_scripts (ld_json_scripts page)")
  case (Inl e)
  with assms show ?thesis by (simp add: scrape_page_def Let_def)
next
  case (Inr found)
  show ?thesis
  proof (cases found)
    case None
    with Inr assms show ?thesis by (auto simp: scrape_page_no_recipe)
  next
    case (Some recipe_data)
    show ?thesis
    proof (cases recipe_data)
      case (JDict d)
      with Some Inr assms show ?thesis
        by (auto simp: scrape_page_recipe split: sum.splits)
    qed (use Some Inr assms in \<open>simp_all add: scrape_page_def Let_def\<close>)
  qed
qed

text \<open>
  C9 (as amended): when the fetch makes the HTTP client raise its \<^verbatim>\<open>Timeout\<close> exception,
  which it does when opening the connection times out and when no response arrives in
  time, the endpoint returns exactly the two fields \<^verbatim>\<open>success = false\<close> and
  \<^verbatim>\<open>error = "Request timed out"\<close>; when the client raises any other \<^verbatim>\<open>RequestException\<close>,
  which it does for a failed connection and for an error status, the endpoint returns
  \<^verbatim>\<open>success = false\<close> and the error \<^verbatim>\<open>"Failed to fetch page: "\<close> followed by the cause.
\<close>

theorem scrape_recipe_fetch_failures:
  "(get url = Inl (Exc Timeout cause) \<longrightarrow>
      scrape_recipe get parse url =
        [(''success'', JBool False), (''error'', JStr ''Request timed out'')]) \<and>
   (get url = Inl (Exc RequestException cause) \<longrightarrow>
      scrape_recipe get parse url =
        [(''success'', JBool False), (''error'', JStr (''Failed to fetch page: '' @ cause))]) \<and>
   (get url = requests_outcome ev \<and> ev \<in> {ConnectTimedOut cause, ResponseTimedOut cause} \<longrightarrow>
      scrape_recipe get parse url =
        [(''success'', JBool False), (''error'', JStr ''Request timed out'')]) \<and>
   (get url = requests_outcome ev \<and> ev \<in> {ConnectionFailed cause, ErrorStatus cause} \<longrightarrow>
      scrape_recipe get parse url =
        [(''success'', JBool False), (''error'', JStr (''Failed to fetch page: '' @ cause))])"
  by (auto simp: scrape_recipe_def)

text \<open>
  C9, at concrete inputs: a connection that times out, a response that does not arrive in
  time, and a page that is not found.
\<close>

theorem scrape_recipe_fetch_failures_witness:
  "scrape_recipe (\<lambda>u. requests_outcome (ConnectTimedOut ''connect timed out''))
       (\<lambda>h. example_page) ''https://a/b'' =
     [(''success'', JBool False), (''error'', JStr ''Request timed out'')] \<and>
   scrape_recipe (\<lambda>u. requests_outcome (ResponseTimedOut ''read timed out''))
       (\<lambda>h. example_page) ''https://a/b'' =
     [(''success'', JBool False), (''error'', JStr ''Request timed out'')] \<and>
   scrape_recipe (\<lambda>u. requests_outcome (ErrorStatus ''404 Client Error''))
       (\<lambda>h. example_page) ''https://a/b'' =
     [(''success'', JBool False), (''error'', JStr ''Failed to fetch page: 404 Client Error'')] \<and>
   scrape_recipe (\<lambda>u. Inl (Exc Timeout ''read timed out'')) (\<lambda>h. example_page) ''https://a/b'' =
     [(''success'', JBool False), (''error'', JStr ''Request timed out'')]"
  using
    scrape_recipe_fetch_failures [of "\<lambda>u. requests_outcome (ConnectTimedOut ''connect timed out'')"
      "''https://a/b''" "''connect timed out''" "\<lambda>h. example_page"
      "ConnectTimedOut ''connect timed out''"]
    scrape_recipe_fetch_failures [of "\<lambda>u. requests_outcome (ResponseTimedOut ''read timed out'')"
      "''https://a/b''" "''read timed out''" "\<lambda>h. example_page"
      "ResponseTimedOut ''read timed out''"]
    scrape_recipe_fetch_failures [of "\<lambda>u. requests_outcome (ErrorStatus ''404 Client Error'')"
      "''https://a/b''" "''404 Client Error''" "\<lambda>h. example_page"
      "ErrorStatus ''404 Client Error''"]
    scrape_recipe_fetch_failures [of "\<lambda>u. Inl (Exc Timeout ''read timed out'')"
      "''https://a/b''" "''read timed out''" "\<lambda>h. example_page"
      "ResponseTimedOut ''read timed out''"]
  by simp

text \<open>
  C9, as stated, fails: when the response arrives and reading its body times out, the
  HTTP client raises a \<^verbatim>\<open>ConnectionError\<close>, and the endpoint answers
  \<^verbatim>\<open>"Failed to fetch page: ..."\<close>, not \<^verbatim>\<open>"Request timed out"\<close>; and an error of the transport
  library that the client raises again unchanged gets \<^verbatim>\<open>"Scraping failed: ..."\<close>, not
  \<^verbatim>\<open>"Failed to fetch page: ..."\<close>.
\<close>

theorem scrape_recipe_body_timeout_not_reported:
  "scrape_recipe (\<lambda>u. requests_outcome (BodyTimedOut ''Read timed out.''))
       (\<lambda>h. example_page) ''https://example.com/recipe'' =
     [(''success'', JBool False), (''error'', JStr ''Failed to fetch page: Read timed out.'')] \<and>
   scrape_recipe (\<lambda>u. requests_outcome (TransportError ''Failed to parse: example.com''))
       (\<lambda>h. example_page) ''https://example.com/recipe'' =
     [(''success'', JBool False),
      (''error'', JStr ''Scraping failed: Failed to parse: example.com'')]"
  by (simp add: scrape_recipe_def)

text \<open>
  C10: a response of the recipe scraper with \<^verbatim>\<open>success = false\<close> has exactly the two keys
  \<^verbatim>\<open>success\<close> and \<^verbatim>\<open>error\<close>, whatever was extracted before the exception.
\<close>

theorem scrape_recipe_failure_keys:
  "map_of (scrape_recipe get parse url) ''success'' = Some (JBool False) \<longrightarrow>
   map fst (scrape_recipe get parse url) = [''success'', ''error'']"
proof (cases "get url")
  case (Inl e)
  then show ?thesis by (simp add: scrape_recipe_def scrape_failure_keys)
next
  case (Inr html)
  show ?thesis
  proof (cases "scrape_page (parse html)")
    case (Inl e)
    with Inr show ?thesis by (simp add: scrape_recipe_def scrape_failure_keys)
  next
    case (Inr result)
    then have "map_of result ''success'' = Some (JBool True)" by (rule scrape_page_success)
    with Inr \<open>get url = Inr html\<close> show ?thesis by (simp add: scrape_recipe_def)
  qed
qed

text \<open>
  C10, at a concrete input: the page is fetched and a recipe is found, then reading the
  first element of its image list fails; the response holds the two keys only.
\<close>

theorem scrape_recipe_failure_keys_witness:
  "map_of (scrape_recipe (\<lambda>u. Inr ''<html>'')
             (\<lambda>h. image_list_page\<lparr>ld_json_scripts :=
                      [Loaded (JDict [(''@type'', JStr ''Recipe''), (''image'', JList [JInt 3])])]\<rparr>)
             ''https://a/b'') ''success'' = Some (JBool False) \<and>
   map fst (scrape_recipe (\<lambda>u. Inr ''<html>'')
             (\<lambda>h. image_list_page\<lparr>ld_json_scripts :=
                      [Loaded (JDict [(''@type'', JStr ''Recipe''), (''image'', JList [JInt 3])])]\<rparr>)
             ''https://a/b'') = [''success'', ''error'']"
proof -
  let ?page = "image_list_page\<lparr>ld_json_scripts :=
                 [Loaded (JDict [(''@type'', JStr ''Recipe''), (''image'', JList [JInt 3])])]\<rparr>"
  have "scrape_page ?page = Inl (no_attribute_get (JInt 3))"
    by (simp add: scrape_page_def image_list_page_def example_page_def dict_get_def
          recipe_image_def)
  then have "map_of (scrape_recipe (\<lambda>u. Inr ''<html>'') (\<lambda>h. ?page) ''https://a/b'') ''success''
      = Some (JBool False)"
    by (simp add: scrape_recipe_def no_attribute_get_def)
  with scrape_recipe_failure_keys [of "\<lambda>u. Inr ''<html>''" "\<lambda>h. ?page" "''https://a/b''"]
  show ?thesis by simp
qed

lemma find_recipe_in_scripts_dict:
  "find_recipe_in_scripts scripts = Inr (Some r) \<Longrightarrow> \<exists>d. r = JDict d"
proof (induction scripts rule: find_recipe_in_scripts.induct)
  case (2 data rest)
  show ?case
  proof (cases "find_recipe_in_jsonld data")
    case None
    with 2 show ?thesis by simp
  next
    case (Some found)
    then have "spec_is_recipe found" and t: "truthy found" by (simp_all add: find_recipe_truthy(1))
    then have "\<exists>d. found = JDict d"
      by (cases found) (simp_all add: spec_is_recipe_def spec_type_sequence_def)
    with Some t 2(3) show ?thesis by simp
  qed
qed simp_all

lemma og_image_json:
  "(case og_image_tag page of
      Some (Some content) \<Rightarrow> if content \<noteq> [] then JStr content else JNull
    | _ \<Rightarrow> JNull) = json_of_str (spec_og_image page)"
  by (simp add: spec_og_image_def split: option.splits)

lemma recipe_image_spec:
  "truthy img \<Longrightarrow> spec_recipe_image img = Some v \<Longrightarrow> recipe_image og img = Inr v"
  by (cases img rule: spec_recipe_image.cases) (auto simp: recipe_image_def)

text \<open>
  C3 (as amended): when the page is fetched, a recipe node is found and the response is a
  success, the response carries the recipe node, and its page text is none if the value of
  the node's \<^verbatim>\<open>recipeInstructions\<close> field is truthy, and the page text cut to 8000 characters
  if the field is absent or its value is falsy (an empty list or string, null, zero, false).
\<close>

theorem scrape_recipe_page_text:
  assumes "get url = Inr html"
    and "find_recipe_in_scripts (ld_json_scripts (parse html)) = Inr (Some (JDict d))"
    and "map_of (scrape_recipe get parse url) ''success'' = Some (JBool True)"
  shows "map_of (scrape_recipe get parse url) ''recipe_data'' = Some (JDict d) \<and>
         map_of (scrape_recipe get parse url) ''page_text'' =
           Some (if truthy (dict_get d ''recipeInstructions'' JNull) then JNull
                 else JStr (take 8000 (get_text (parse html))))"
proof (cases "scrape_page (parse html)")
  case (Inl e)
  with assms(1) have "scrape_recipe get parse url = scrape_failure e"
    by (simp add: scrape_recipe_def)
  with assms(3) show ?thesis by (simp add: scrape_failure_success)
next
  case (Inr result)
  with assms(1) have r: "scrape_recipe get parse url = result" by (simp add: scrape_recipe_def)
  from Inr have "map_of result ''recipe_data'' = Some (JDict d)"
    and "map_of result ''page_text'' =
           Some (if truthy (dict_get d ''recipeInstructions'' JNull) then JNull
                 else JStr (take 8000 (get_text (parse html))))"
    unfolding scrape_page_recipe [OF assms(2)] by (auto split: sum.splits)
  with r show ?thesis by simp
qed

text \<open>
  C3, at concrete inputs: the page of the end-to-end scenario, whose recipe has
  instructions, gets no page text; the same page with an empty list of instructions gets
  the page text.
\<close>

theorem scrape_recipe_page_text_witness:
  "map_of (scrape_recipe (\<lambda>u. Inr ''<html>'') (\<lambda>h. example_page) ''https://example.com/recipe'')
     ''success'' = Some (JBool True) \<and>
   map_of (scrape_recipe (\<lambda>u. Inr ''<html>'') (\<lambda>h. example_page) ''https://example.com/recipe'')
     ''page_text'' = Some JNull \<and>
   map_of (scrape_recipe (\<lambda>u. Inr ''<html>'') (\<lambda>h. empty_instructions_page)
     ''https://example.com/recipe'') ''success'' = Some (JBool True) \<and>
   map_of (scrape_recipe (\<lambda>u. Inr ''<html>'') (\<lambda>h. empty_instructions_page)
     ''https://example.com/recipe'') ''page_text'' = Some (JStr ''Soup. Boil.'')"
proof -
  let ?get = "\<lambda>u::string. Inr ''<html>'' :: exc + string"
  let ?url = "''https://example.com/recipe''"
  have f1: "find_recipe_in_scripts (ld_json_scripts example_page) = Inr (Some (JDict example_recipe))"
    by (simp add: example_page_def example_recipe_def dict_get_def)
  have f2: "find_recipe_in_scripts (ld_json_scripts empty_instructions_page)
      = Inr (Some (JDict empty_instructions_recipe))"
    by (simp add: empty_instructions_page_def empty_instructions_recipe_def dict_get_def)
  have og1: "og_image_tag example_page = Some (Some ''https://img/x.jpg'')"
    by (simp add: example_page_def)
  have og2: "og_image_tag empty_instructions_page = Some (Some ''https://img/x.jpg'')"
    by (simp add: empty_instructions_page_def example_page_def)
  have s1: "map_of (scrape_recipe ?get (\<lambda>h. example_page) ?url) ''success'' = Some (JBool True)"
    by (simp add: scrape_recipe_def scrape_page_recipe [OF f1] og1)
  have s2: "map_of (scrape_recipe ?get (\<lambda>h. empty_instructions_page) ?url) ''success''
      = Some (JBool True)"
    by (simp add: scrape_recipe_def scrape_page_recipe [OF f2] og2)
  have t1: "truthy (dict_get example_recipe ''recipeInstructions'' JNull)"
    by (simp add: example_recipe_def dict_get_def)
  have t2: "\<not> truthy (dict_get empty_instructions_recipe ''recipeInstructions'' JNull)"
    by (simp add: empty_instructions_recipe_def dict_get_def)
  have g: "get_text empty_instructions_page = ''Soup. Boil.''"
    by (simp add: empty_instructions_page_def example_page_def)
  from scrape_recipe_page_text [of ?get ?url "''<html>''" "\<lambda>h. example_page", OF refl f1 s1]
    scrape_recipe_page_text [of ?get ?url "''<html>''" "\<lambda>h. empty_instructions_page",
      OF refl f2 s2]
    s1 s2 t1 t2 g
  show ?thesis by simp
qed

text \<open>
  C3, as stated, fails: the recipe node has a \<^verbatim>\<open>recipeInstructions\<close> field, whose value is
  the empty list, and the response carries the page text, not none.
\<close>

theorem scrape_recipe_empty_instructions_keep_page_text:
  "map_of empty_instructions_recipe ''recipeInstructions'' = Some (JList []) \<and>
   find_recipe_in_scripts (ld_json_scripts empty_instructions_page)
     = Inr (Some (JDict empty_instructions_recipe)) \<and>
   map_of (scrape_recipe (\<lambda>u. Inr ''<html>'') (\<lambda>h. empty_instructions_page)
     ''https://example.com/recipe'') ''page_text'' = Some (JStr ''Soup. Boil.'')"
proof -
  have f2: "find_recipe_in_scripts (ld_json_scripts empty_instructions_page)
      = Inr (Some (JDict empty_instructions_recipe))"
    by (simp add: empty_instructions_page_def empty_instructions_recipe_def dict_get_def)
  have og2: "og_image_tag empty_instructions_page = Some (Some ''https://img/x.jpg'')"
    by (simp add: empty_instructions_page_def example_page_def)
  have t2: "\<not> truthy (dict_get empty_instructions_recipe ''recipeInstructions'' JNull)"
    by (simp add: empty_instructions_recipe_def dict_get_def)
  have g: "get_text empty_instructions_page = ''Soup. Boil.''"
    by (simp add: empty_instructions_page_def example_page_def)
  have "map_of (scrape_recipe (\<lambda>u. Inr ''<html>'') (\<lambda>h. empty_instructions_page)
     ''https://example.com/recipe'') ''page_text'' = Some (JStr ''Soup. Boil.'')"
    by (simp add: scrape_recipe_def scrape_page_recipe [OF f2] og2 t2 g)
  with f2 show ?thesis by (simp add: empty_instructions_recipe_def)
qed

lemma spec_og_image_nonempty: "spec_og_image page = Some content \<Longrightarrow> content \<noteq> []"
  by (auto simp: spec_og_image_def split: option.splits if_splits)

text \<open>
  C8 (as amended): when the response is a success and the first \<^verbatim>\<open>og:image\<close> meta tag of
  the page has a non-empty content, the image URL of the response is that content, whether
  or not a recipe with an image is found. The image of the recipe (a string; a sequence
  whose first element is a string or an object with a \<^verbatim>\<open>url\<close> field; an object with a
  \<^verbatim>\<open>url\<close> field) is the image URL of the response when the page has no \<^verbatim>\<open>og:image\<close> tag or
  the content of its first one is missing or empty.
\<close>

theorem scrape_recipe_image_url:
  assumes "get url = Inr html"
    and "map_of (scrape_recipe get parse url) ''success'' = Some (JBool True)"
  shows "(spec_og_image (parse html) = Some content \<longrightarrow>
            map_of (scrape_recipe get parse url) ''image_url'' = Some (JStr content)) \<and>
         (spec_og_image (parse html) = None \<and>
          find_recipe_in_scripts (ld_json_scripts (parse html)) = Inr (Some (JDict d)) \<and>
          truthy (dict_get d ''image'' JNull) \<and>
          spec_recipe_image (dict_get d ''image'' JNull) = Some v \<longrightarrow>
            map_of (scrape_recipe get parse url) ''image_url'' = Some v)"
proof (intro conjI impI)
  assume og: "spec_og_image (parse html) = Some content"
  show "map_of (scrape_recipe get parse url) ''image_url'' = Some (JStr content)"
  proof (cases "find_recipe_in_scripts (ld_json_scripts (parse html))")
    case (Inl e)
    then have "scrape_page (parse html) = Inl e" by (simp add: scrape_page_def Let_def)
    with assms(1) have "scrape_recipe get parse url = scrape_failure e"
      by (simp add: scrape_recipe_def)
    with assms(2) show ?thesis by (simp add: scrape_failure_success)
  next
    case (Inr found)
    show ?thesis
    proof (cases found)
      case None
      with Inr have nr: "find_recipe_in_scripts (ld_json_scripts (parse html)) = Inr None"
        by simp
      have "scrape_page (parse html) =
         Inr [(''success'', JBool True),
            (''recipe_data'', JNull),
            (''page_text'', JStr (take 8000 (get_text (parse html)))),
            (''title'',
               (case title_string (parse html) of
                  Some s \<Rightarrow> if s \<noteq> [] then JStr (strip s) else JNull
                | None \<Rightarrow> JNull)),
            (''image_url'', json_of_str (spec_og_image (parse html)))]"
        unfolding scrape_page_no_recipe [OF nr] og_image_json by (rule refl)
      with assms(1) og show ?thesis by (simp add: scrape_recipe_def)
    next
      case (Some r)
      with Inr obtain d' where r: "r = JDict d'" by (auto dest: find_recipe_in_scripts_dict)
      with Some Inr
      have f: "find_recipe_in_scripts (ld_json_scripts (parse html)) = Inr (Some (JDict d'))"
        by simp
      have "\<exists>pt ti. scrape_page (parse html) =
         Inr [(''success'', JBool True), (''recipe_data'', JDict d'), (''page_text'', pt),
              (''title'', ti), (''image_url'', JStr content)]"
        unfolding scrape_page_recipe [OF f] og_image_json og
        using spec_og_image_nonempty [OF og] by simp
      with assms(1) show ?thesis by (auto simp: scrape_recipe_def)
    qed
  qed
next
  assume h: "spec_og_image (parse html) = None \<and>
          find_recipe_in_scripts (ld_json_scripts (parse html)) = Inr (Some (JDict d)) \<and>
          truthy (dict_get d ''image'' JNull) \<and>
          spec_recipe_image (dict_get d ''image'' JNull) = Some v"
  then have f: "find_recipe_in_scripts (ld_json_scripts (parse html)) = Inr (Some (JDict d))"
    and og: "spec_og_image (parse html) = None"
    and t: "truthy (dict_get d ''image'' JNull)"
    and ri: "recipe_image JNull (dict_get d ''image'' JNull) = Inr v"
    by (simp_all add: recipe_image_spec)
  have "\<exists>pt ti. scrape_page (parse html) =
       Inr [(''success'', JBool True), (''recipe_data'', JDict d), (''page_text'', pt),
            (''title'', ti), (''image_url'', v)]"
    unfolding scrape_page_recipe [OF f] og_image_json og using t ri by simp
  with assms(1) show "map_of (scrape_recipe get parse url) ''image_url'' = Some v"
    by (auto simp: scrape_recipe_def)
qed

text \<open>
  C8, at concrete inputs: on the page of the end-to-end scenario the \<^verbatim>\<open>og:image\<close> content
  wins over the image of the recipe; on a page with no \<^verbatim>\<open>og:image\<close> tag the \<^verbatim>\<open>url\<close> field of
  the first element of the recipe's image list is taken.
\<close>

theorem scrape_recipe_image_url_witness:
  "spec_og_image example_page = Some ''https://img/x.jpg'' \<and>
   map_of example_recipe ''image'' = Some (JStr ''https://img/y.jpg'') \<and>
   map_of (scrape_recipe (\<lambda>u. Inr ''<html>'') (\<lambda>h. example_page) ''https://example.com/recipe'')
     ''success'' = Some (JBool True) \<and>
   map_of (scrape_recipe (\<lambda>u. Inr ''<html>'') (\<lambda>h. example_page) ''https://example.com/recipe'')
     ''image_url'' = Some (JStr ''https://img/x.jpg'') \<and>
   spec_og_image image_list_page = None \<and>
   map_of (scrape_recipe (\<lambda>u. Inr ''<html>'') (\<lambda>h. image_list_page)
     ''https://example.com/recipe'') ''success'' = Some (JBool True) \<and>
   map_of (scrape_recipe (\<lambda>u. Inr ''<html>'') (\<lambda>h. image_list_page)
     ''https://example.com/recipe'') ''image_url'' = Some (JStr ''https://img/z.jpg'')"
proof -
  let ?get = "\<lambda>u::string. Inr ''<html>'' :: exc + string"
  let ?url = "''https://example.com/recipe''"
  have o1: "spec_og_image example_page = Some ''https://img/x.jpg''"
    by (simp add: spec_og_image_def example_page_def)
  have o2: "spec_og_image image_list_page = None"
    by (simp add: spec_og_image_def image_list_page_def example_page_def)
  have f1: "find_recipe_in_scripts (ld_json_scripts example_page)
      = Inr (Some (JDict example_recipe))"
    by (simp add: example_page_def example_recipe_def dict_get_def)
  have f2: "find_recipe_in_scripts (ld_json_scripts image_list_page)
      = Inr (Some (JDict image_list_recipe))"
    by (simp add: image_list_page_def example_page_def image_list_recipe_def dict_get_def)
  have i2: "dict_get image_list_recipe ''image'' JNull
      = JList [JDict [(''url'', JStr ''https://img/z.jpg'')], JStr ''https://img/w.jpg'']"
    by (simp add: image_list_recipe_def dict_get_def)
  have v2: "spec_recipe_image (dict_get image_list_recipe ''image'' JNull)
      = Some (JStr ''https://img/z.jpg'')"
    unfolding i2 by (simp add: dict_get_def)
  have t2: "truthy (dict_get image_list_recipe ''image'' JNull)" by (simp add: i2)
  have og1: "og_image_tag example_page = Some (Some ''https://img/x.jpg'')"
    by (simp add: example_page_def)
  have og2: "og_image_tag image_list_page = None"
    by (simp add: image_list_page_def example_page_def)
  have s1: "map_of (scrape_recipe ?get (\<lambda>h. example_page) ?url) ''success'' = Some (JBool True)"
    by (simp add: scrape_recipe_def scrape_page_recipe [OF f1] og1)
  have s2: "map_of (scrape_recipe ?get (\<lambda>h. image_list_page) ?url) ''success''
      = Some (JBool True)"
    by (simp add: scrape_recipe_def scrape_page_recipe [OF f2] og2 i2 recipe_image_def)
  from scrape_recipe_image_url [of ?get ?url "''<html>''" "\<lambda>h. example_page"
      "''https://img/x.jpg''" image_list_recipe "JNull", OF refl s1]
    scrape_recipe_image_url [of ?get ?url "''<html>''" "\<lambda>h. image_list_page"
      "''https://img/x.jpg''" image_list_recipe "JStr ''https://img/z.jpg''", OF refl s2]
    o1 o2 f2 v2 t2 s1 s2
  show ?thesis by (simp add: example_recipe_def)
qed

text \<open>
  C8, as stated, fails: the page has an \<^verbatim>\<open>og:image\<close> tag, whose content is empty, and a
  recipe with an image; the image URL of the response is the image of the recipe, not the
  content of the tag.
\<close>

theorem scrape_recipe_empty_og_image_loses:
  "og_image_tag empty_og_page = Some (Some []) \<and>
   find_recipe_in_scripts (ld_json_scripts empty_og_page) = Inr (Some (JDict example_recipe)) \<and>
   map_of example_recipe ''image'' = Some (JStr ''https://img/y.jpg'') \<and>
   map_of (scrape_recipe (\<lambda>u. Inr ''<html>'') (\<lambda>h. empty_og_page) ''https://example.com/recipe'')
     ''image_url'' = Some (JStr ''https://img/y.jpg'')"
proof -
  have og: "og_image_tag empty_og_page = Some (Some [])"
    by (simp add: empty_og_page_def)
  have f: "find_recipe_in_scripts (ld_json_scripts empty_og_page) = Inr (Some (JDict example_recipe))"
    by (simp add: empty_og_page_def example_page_def example_recipe_def dict_get_def)
  have i: "dict_get example_recipe ''image'' JNull = JStr ''https://img/y.jpg''"
    by (simp add: example_recipe_def dict_get_def)
  have "map_of (scrape_recipe (\<lambda>u. Inr ''<html>'') (\<lambda>h. empty_og_page)
      ''https://example.com/recipe'') ''image_url'' = Some (JStr ''https://img/y.jpg'')"
    by (simp add: scrape_recipe_def scrape_page_recipe [OF f] og i recipe_image_def)
  with og f show ?thesis by (simp add: example_recipe_def)
qed

end
